theory Spec2Isabelle
  imports Main "HOL-Library.Multiset" "HOL-Library.AList"
begin

section \<open>Colours, moves and the six face grids\<close>

text \<open>
  \<^verbatim>\<open>colour.py\<close>: a colour is an RGB triple; the six constants below are the module's.
  \<^verbatim>\<open>move.py\<close>: a move is the dataclass \<^verbatim>\<open>Move(face, invert, double)\<close>, its face a
  one-character string that nothing validates.
\<close>

type_synonym colour = "int \<times> int \<times> int"

definition WHITE :: colour where "WHITE = (255, 255, 255)"
definition GREEN :: colour where "GREEN = (0, 255, 0)"
definition ORANGE :: colour where "ORANGE = (255, 165, 0)"
definition YELLOW :: colour where "YELLOW = (255, 255, 0)"
definition BLUE :: colour where "BLUE = (0, 0, 255)"
definition RED :: colour where "RED = (255, 0, 0)"

datatype move = Move (face: char) (invert: bool) (double: bool)

datatype error = KeyError | ValueError | IndexError

text \<open>
  \<^verbatim>\<open>Cube.faces\<close> is a dict with exactly the keys U, F, L, B, R, D (the order of
  \<^verbatim>\<open>INITIAL_FACE_COLOUR_MAPPING\<close>), each holding a list of rows. The keys are the
  datatype \<open>fkey\<close>; \<open>key_of\<close> is the dict's key test, so that \<open>None\<close> is the
  \<^verbatim>\<open>KeyError\<close> of \<^verbatim>\<open>self.faces[face]\<close>. Rows are replaced as wholes and never written
  in place, and no row or face list is ever held by two slots at once, so the dict is
  modelled by value.
\<close>

type_synonym 'a grid = "'a list list"

datatype fkey = U | F | L | B | R | D

record 'a faces =
  fU :: "'a grid"
  fF :: "'a grid"
  fL :: "'a grid"
  fB :: "'a grid"
  fR :: "'a grid"
  fD :: "'a grid"

definition key_of :: "char \<Rightarrow> fkey option" where
  "key_of ch =
     (if ch = CHR ''U'' then Some U
      else if ch = CHR ''F'' then Some F
      else if ch = CHR ''L'' then Some L
      else if ch = CHR ''B'' then Some B
      else if ch = CHR ''R'' then Some R
      else if ch = CHR ''D'' then Some D
      else None)"

fun get_face :: "fkey \<Rightarrow> 'a faces \<Rightarrow> 'a grid" where
  "get_face U fs = fU fs"
| "get_face F fs = fF fs"
| "get_face L fs = fL fs"
| "get_face B fs = fB fs"
| "get_face R fs = fR fs"
| "get_face D fs = fD fs"

fun set_face :: "fkey \<Rightarrow> 'a grid \<Rightarrow> 'a faces \<Rightarrow> 'a faces" where
  "set_face U g fs = fs\<lparr>fU := g\<rparr>"
| "set_face F g fs = fs\<lparr>fF := g\<rparr>"
| "set_face L g fs = fs\<lparr>fL := g\<rparr>"
| "set_face B g fs = fs\<lparr>fB := g\<rparr>"
| "set_face R g fs = fs\<lparr>fR := g\<rparr>"
| "set_face D g fs = fs\<lparr>fD := g\<rparr>"

text \<open>\<^verbatim>\<open>Cube._generate_face\<close> and the dict that \<^verbatim>\<open>Cube.__init__\<close> builds.\<close>

definition generate_face :: "'a \<Rightarrow> nat \<Rightarrow> 'a grid" where
  "generate_face colour n = replicate n (replicate n colour)"

definition initial_faces :: "nat \<Rightarrow> colour faces" where
  "initial_faces n =
     \<lparr>fU = generate_face WHITE n, fF = generate_face GREEN n, fL = generate_face ORANGE n,
      fB = generate_face BLUE n, fR = generate_face RED n, fD = generate_face YELLOW n\<rparr>"

section \<open>The move engine\<close>

text \<open>
  Python's \<^verbatim>\<open>zip(*rows)\<close>: the columns of \<open>rows\<close>, as many as the shortest row has
  cells, and none for no rows. \<^verbatim>\<open>_transpose(l)\<close> is \<^verbatim>\<open>[list(i) for i in zip(*l)]\<close>.
\<close>

function zip_star :: "'a list list \<Rightarrow> 'a list list" where
  "zip_star [] = []"
| "zip_star (r # rs) =
     (if [] \<in> set (r # rs) then [] else map hd (r # rs) # zip_star (map tl (r # rs)))"
  by pat_completeness auto
termination
  by (relation "measure (\<lambda>rows. length (hd rows))") (auto simp: less_Suc_eq_le)

definition transpose_grid :: "'a grid \<Rightarrow> 'a grid" where
  "transpose_grid l = zip_star l"

text \<open>
  \<^verbatim>\<open>_face_rotate\<close>: \<^verbatim>\<open>self.faces[face] = [list(row) for row in zip(*self.faces[face][::-1])]\<close>.
\<close>

definition face_rotate :: "fkey \<Rightarrow> 'a faces \<Rightarrow> 'a faces" where
  "face_rotate k fs = set_face k (zip_star (rev (get_face k fs))) fs"

text \<open>
  \<^verbatim>\<open>_y_rotate(double, inverse)\<close>: one pass of its loop is \<open>y_step\<close>; the loop runs
  \<^verbatim>\<open>2 if double else 3 if inverse else 1\<close> times.
\<close>

definition turns :: "bool \<Rightarrow> bool \<Rightarrow> nat" where
  "turns dbl invr = (if dbl then 2 else if invr then 3 else 1)"

definition y_step :: "'a faces \<Rightarrow> 'a faces" where
  "y_step fs =
     (let fs1 = fs\<lparr>fF := fR fs, fL := fF fs, fB := fL fs, fR := fB fs\<rparr>;
          fs2 = face_rotate U fs1
      in face_rotate D (face_rotate D (face_rotate D fs2)))"

definition y_rotate :: "bool \<Rightarrow> bool \<Rightarrow> 'a faces \<Rightarrow> 'a faces" where
  "y_rotate dbl invr fs = (y_step ^^ turns dbl invr) fs"

text \<open>
  \<^verbatim>\<open>_adjacent_face_swap\<close>. Reads \<^verbatim>\<open>x[0]\<close> and \<^verbatim>\<open>x[-1]\<close> are \<open>hd\<close> and \<open>last\<close>,
  writes \<^verbatim>\<open>x[0] = v\<close> and \<^verbatim>\<open>x[-1] = v\<close> are list updates; on an empty grid Python
  raises \<^verbatim>\<open>IndexError\<close>, so the engine is only stated for grids that have rows
  (\<open>wf_faces\<close> below). The F case works on \<^verbatim>\<open>l = [U, transpose(R), D, transpose(L)]\<close>.
\<close>

definition swap_U :: "'a faces \<Rightarrow> 'a faces" where
  "swap_U fs =
     fs\<lparr>fF := (fF fs)[0 := hd (fR fs)], fL := (fL fs)[0 := hd (fF fs)],
        fB := (fB fs)[0 := hd (fL fs)], fR := (fR fs)[0 := hd (fB fs)]\<rparr>"

definition swap_D :: "'a faces \<Rightarrow> 'a faces" where
  "swap_D fs =
     fs\<lparr>fF := (fF fs)[length (fF fs) - 1 := last (fL fs)],
        fL := (fL fs)[length (fL fs) - 1 := last (fB fs)],
        fB := (fB fs)[length (fB fs) - 1 := last (fR fs)],
        fR := (fR fs)[length (fR fs) - 1 := last (fF fs)]\<rparr>"

definition swap_F :: "'a faces \<Rightarrow> 'a faces" where
  "swap_F fs =
     (let l0 = fU fs; l1 = transpose_grid (fR fs); l2 = fD fs; l3 = transpose_grid (fL fs);
          r0 = last l0; r1 = rev (hd l1); r2 = hd l2; r3 = rev (last l3);
          l0' = l0[length l0 - 1 := r3];
          l1' = l1[0 := r0];
          l2' = l2[0 := r1];
          l3' = l3[length l3 - 1 := r2]
      in fs\<lparr>fU := l0', fR := transpose_grid l1', fD := l2', fL := transpose_grid l3'\<rparr>)"

fun adjacent_face_swap :: "fkey \<Rightarrow> 'a faces \<Rightarrow> 'a faces" where
  "adjacent_face_swap U fs = swap_U fs"
| "adjacent_face_swap D fs = swap_D fs"
| "adjacent_face_swap F fs = swap_F fs"
| "adjacent_face_swap R fs = y_rotate False True (swap_F (y_rotate False False fs))"
| "adjacent_face_swap L fs = y_rotate False False (swap_F (y_rotate False True fs))"
| "adjacent_face_swap B fs = y_rotate True False (swap_F (y_rotate True False fs))"

text \<open>
  \<^verbatim>\<open>_rotate(move)\<close>: the quarter turn \<open>quarter\<close> is one pass of its loop. The first
  statement of the first pass looks \<^verbatim>\<open>move.face\<close> up in the dict, so an unknown face
  raises \<^verbatim>\<open>KeyError\<close> before anything is written.
\<close>

definition quarter :: "fkey \<Rightarrow> 'a faces \<Rightarrow> 'a faces" where
  "quarter k fs = adjacent_face_swap k (face_rotate k fs)"

definition rotate_move :: "move \<Rightarrow> 'a faces \<Rightarrow> error + 'a faces" where
  "rotate_move m fs =
     (case key_of (face m) of
        None \<Rightarrow> Inl KeyError
      | Some k \<Rightarrow> Inr ((quarter k ^^ turns (double m) (invert m)) fs))"

text \<open>
  \<^verbatim>\<open>Cube.do_moves\<close> on a list of moves. The result is the error raised, if any, and the
  faces as the call leaves them: the moves before a failing one stay applied.
\<close>

fun do_moves :: "move list \<Rightarrow> 'a faces \<Rightarrow> error option \<times> 'a faces" where
  "do_moves [] fs = (None, fs)"
| "do_moves (m # ms) fs =
     (if face m = CHR ''y'' then do_moves ms (y_rotate False False fs)
      else case rotate_move m fs of
             Inl e \<Rightarrow> (Some e, fs)
           | Inr fs' \<Rightarrow> do_moves ms fs')"

text \<open>\<^verbatim>\<open>Cube.is_solved\<close>: every cell of every face equals that face's cell \<^verbatim>\<open>[0][0]\<close>.\<close>

definition face_uniform :: "'a grid \<Rightarrow> bool" where
  "face_uniform g = list_all (\<lambda>row. list_all (\<lambda>piece_colour. piece_colour = hd (hd g)) row) g"

definition is_solved :: "'a faces \<Rightarrow> bool" where
  "is_solved fs =
     (face_uniform (fU fs) \<and> face_uniform (fF fs) \<and> face_uniform (fL fs) \<and>
      face_uniform (fB fs) \<and> face_uniform (fR fs) \<and> face_uniform (fD fs))"

section \<open>Notation: \<^verbatim>\<open>scramble/parser.py\<close>\<close>

text \<open>
  \<^verbatim>\<open>str.split()\<close> with no argument cuts at runs of whitespace and yields no empty
  token. Strings hold code points below 256; \<open>is_space\<close> is \<^verbatim>\<open>str.isspace\<close> there.
  \<^verbatim>\<open>" ".join(xs)\<close> is \<open>join\<close>.
\<close>

definition is_space :: "char \<Rightarrow> bool" where
  "is_space c =
     (c \<in> {CHR 0x09, CHR 0x0A, CHR 0x0B, CHR 0x0C, CHR 0x0D, CHR 0x1C, CHR 0x1D, CHR 0x1E,
            CHR 0x1F, CHR 0x20, CHR 0x85, CHR 0xA0})"

fun split_from :: "string \<Rightarrow> string \<Rightarrow> string list" where
  "split_from cur [] = (if cur = [] then [] else [cur])"
| "split_from cur (c # cs) =
     (if is_space c then (if cur = [] then split_from [] cs else cur # split_from [] cs)
      else split_from (cur @ [c]) cs)"

definition split :: "string \<Rightarrow> string list" where
  "split s = split_from [] s"

fun join :: "string list \<Rightarrow> string" where
  "join [] = []"
| "join [x] = x"
| "join (x # y # ys) = x @ '' '' @ join (y # ys)"

definition prime :: string where
  "prime = [CHR 0x27]"

text \<open>
  \<^verbatim>\<open>scramble_to_moves\<close>: one \<^verbatim>\<open>Move(move[0], "'" in move, "2" in move)\<close> per token.
  The only statement that can raise is \<^verbatim>\<open>move[0]\<close>, on an empty token.
\<close>

definition token_to_move :: "string \<Rightarrow> error + move" where
  "token_to_move mv =
     (case mv of
        [] \<Rightarrow> Inl IndexError
      | c # _ \<Rightarrow> Inr (Move c (CHR 0x27 \<in> set mv) (CHR ''2'' \<in> set mv)))"

fun tokens_to_moves :: "string list \<Rightarrow> error + move list" where
  "tokens_to_moves [] = Inr []"
| "tokens_to_moves (t # ts) =
     (case token_to_move t of
        Inl e \<Rightarrow> Inl e
      | Inr m \<Rightarrow> (case tokens_to_moves ts of Inl e \<Rightarrow> Inl e | Inr ms \<Rightarrow> Inr (m # ms)))"

definition scramble_to_moves :: "string \<Rightarrow> error + move list" where
  "scramble_to_moves scramble = tokens_to_moves (split scramble)"

text \<open>\<^verbatim>\<open>moves_to_scramble\<close>: the face, then \<^verbatim>\<open>2\<close> if double, else \<^verbatim>\<open>'\<close> if invert.\<close>

definition move_to_token :: "move \<Rightarrow> string" where
  "move_to_token m =
     (if double m then [face m] @ ''2'' else if invert m then [face m] @ prime else [face m])"

definition moves_to_scramble :: "move list \<Rightarrow> string" where
  "moves_to_scramble moves = join (map move_to_token moves)"

text \<open>\<^verbatim>\<open>invert_moves\<close>: walks the list backwards, flipping \<^verbatim>\<open>invert\<close> and keeping \<^verbatim>\<open>double\<close>.\<close>

definition invert_move :: "move \<Rightarrow> move" where
  "invert_move m = Move (face m) (\<not> invert m) (double m)"

definition invert_moves :: "move list \<Rightarrow> move list" where
  "invert_moves moves = map invert_move (rev moves)"

text \<open>
  \<^verbatim>\<open>Cube.do_moves\<close> on text: \<^verbatim>\<open>if isinstance(moves, str): moves = parser.scramble_to_moves(moves)\<close>.
\<close>

definition do_moves_text :: "string \<Rightarrow> 'a faces \<Rightarrow> error option \<times> 'a faces" where
  "do_moves_text s fs =
     (case scramble_to_moves s of Inl e \<Rightarrow> (Some e, fs) | Inr ms \<Rightarrow> do_moves ms fs)"

section \<open>The sequence optimizer: \<^verbatim>\<open>scramble/cleaner.py\<close>\<close>

text \<open>
  \<^verbatim>\<open>is_double\<close> and \<^verbatim>\<open>is_prime\<close> look at \<^verbatim>\<open>move[1]\<close> only and answer False when the
  token has no second character.
\<close>

definition is_double :: "string \<Rightarrow> bool" where
  "is_double mv = (1 < length mv \<and> mv ! 1 = CHR ''2'')"

definition is_prime :: "string \<Rightarrow> bool" where
  "is_prime mv = (1 < length mv \<and> mv ! 1 = CHR 0x27)"

text \<open>\<^verbatim>\<open>del xs[i]\<close>.\<close>

definition del :: "nat \<Rightarrow> 'a list \<Rightarrow> 'a list" where
  "del i xs = take i xs @ drop (Suc i) xs"

text \<open>
  The body of \<^verbatim>\<open>clean_moves\<close>' loop once the tokens at \<open>seq\<close> and \<open>seq + 1\<close> share
  their first character: the nine branches, in the source's order.
\<close>

definition combine :: "string list \<Rightarrow> nat \<Rightarrow> string list" where
  "combine ss seq =
     (let a = ss ! seq; b = ss ! (seq + 1) in
      if \<not> is_prime a \<and> \<not> is_double a then
        (if \<not> is_prime b \<and> \<not> is_double b then (del (seq + 1) ss)[seq := a @ ''2'']
         else if is_prime b then del seq (del seq ss)
         else if is_double b then (del (seq + 1) ss)[seq := a @ prime]
         else ss)
      else if is_prime a then
        (if \<not> is_prime b \<and> \<not> is_double b then del seq (del seq ss)
         else if is_prime b then (del (seq + 1) ss)[seq := [hd a] @ ''2'']
         else if is_double b then (del (seq + 1) ss)[seq := [hd a]]
         else ss)
      else if is_double a then
        (if \<not> is_prime b \<and> \<not> is_double b then (del seq ss)[seq := [hd b] @ prime]
         else if is_prime b then (del (seq + 1) ss)[seq := [hd a]]
         else if is_double b then del seq (del seq ss)
         else ss)
      else ss)"

lemma length_combine:
  "seq + 1 < length ss \<Longrightarrow> length (combine ss seq) < length ss"
  by (auto simp: combine_def del_def Let_def)

text \<open>
  The \<^verbatim>\<open>while seq < len(split_scramble)\<close> loop. An \<^verbatim>\<open>IndexError\<close> (no token at
  \<open>seq + 1\<close>, or an empty token) leaves the loop through the \<^verbatim>\<open>except\<close> clause. After a
  combination \<^verbatim>\<open>seq -= 1\<close> and the loop's \<^verbatim>\<open>seq += 1\<close> cancel, so the same position is
  looked at again.
\<close>

function clean_loop :: "string list \<Rightarrow> nat \<Rightarrow> string list" where
  "clean_loop ss seq =
     (if seq < length ss then
        (if ss ! seq = [] \<or> \<not> seq + 1 < length ss \<or> ss ! (seq + 1) = [] then ss
         else if hd (ss ! seq) = hd (ss ! (seq + 1)) then clean_loop (combine ss seq) seq
         else clean_loop ss (seq + 1))
      else ss)"
  by pat_completeness auto
termination
proof (relation "measure (\<lambda>(ss, seq). 2 * length ss - seq)")
  show "wf (measure (\<lambda>(ss, seq). 2 * length ss - seq))" by simp
next
  fix ss :: "string list" and seq :: nat
  assume "seq < length ss" and "\<not> (ss ! seq = [] \<or> \<not> seq + 1 < length ss \<or> ss ! (seq + 1) = [])"
  then have "seq + 1 < length ss" by simp
  from length_combine [OF this] \<open>seq < length ss\<close>
  show "((combine ss seq, seq), (ss, seq)) \<in> measure (\<lambda>(ss, seq). 2 * length ss - seq)"
    by simp
next
  fix ss :: "string list" and seq :: nat
  assume "seq < length ss"
  then show "((ss, seq + 1), (ss, seq)) \<in> measure (\<lambda>(ss, seq). 2 * length ss - seq)"
    by simp
qed

definition clean_moves :: "string \<Rightarrow> string" where
  "clean_moves scramble = join (clean_loop (split scramble) 0)"

section \<open>Piece lookup: \<^verbatim>\<open>cube/pieces.py\<close>, \<^verbatim>\<open>Cube\<close> and \<^verbatim>\<open>HistoryCube\<close>\<close>

text \<open>
  The two tables of \<^verbatim>\<open>pieces.py\<close>, in the order the module writes them (a dict keeps
  insertion order). \<open>map_of\<close> is the lookup; \<open>None\<close> is its \<^verbatim>\<open>KeyError\<close>.
\<close>

definition EDGE_TO_UF :: "(string \<times> string) list" where
  "EDGE_TO_UF =
     [(''UF'', ''U2 U2''), (''UL'', ''U'' @ prime), (''UR'', ''U''), (''UB'', ''U2''),
      (''LB'', ''L2 F''), (''LD'', ''L' F''), (''LF'', ''F''), (''RB'', ''R2 F'' @ prime),
      (''RD'', ''R F'' @ prime), (''RF'', ''F'' @ prime), (''DB'', ''D2 F2''), (''DF'', ''F2'')]"

definition CORNER_TO_UFR :: "(string \<times> string) list" where
  "CORNER_TO_UFR =
     [(''UFR'', ''U2 U2''), (''DFR'', ''R''), (''DBR'', ''R2''), (''URB'', ''U''),
      (''ULF'', ''U'' @ prime), (''UBL'', ''U2''), (''DFL'', ''L' U'' @ prime),
      (''DBL'', ''L2 U'' @ prime)]"

text \<open>
  An \<^verbatim>\<open>Edge\<close> or \<^verbatim>\<open>Corner\<close> is a dict from face letters to colours. A dict display
  \<^verbatim>\<open>{k1: v1, k2: v2}\<close> inserts left to right, a repeated key keeping its first place and
  taking the later value: \<open>AList.update\<close>. \<^verbatim>\<open>piece[i]\<close> raises \<^verbatim>\<open>IndexError\<close> on a
  label that is too short; every key of the two tables is long enough.
\<close>

type_synonym 'a piece = "(char \<times> 'a) list"

definition dict_of :: "('k \<times> 'v) list \<Rightarrow> ('k \<times> 'v) list" where
  "dict_of kvs = fold (\<lambda>(k, v). AList.update k v) kvs []"

definition dict_values :: "('k \<times> 'v) list \<Rightarrow> 'v list" where
  "dict_values d = map snd d"

definition edge_info :: "string \<Rightarrow> 'a faces \<Rightarrow> 'a piece" where
  "edge_info piece fs =
     dict_of [(piece ! 0, last (fU fs) ! 1), (piece ! 1, hd (fF fs) ! 1)]"

definition corner_info :: "string \<Rightarrow> 'a faces \<Rightarrow> 'a piece" where
  "corner_info piece fs =
     dict_of [(piece ! 0, last (last (fU fs))), (piece ! 1, last (hd (fF fs))),
              (piece ! 2, hd (hd (fR fs)))]"

text \<open>
  \<^verbatim>\<open>Cube.get_edge\<close> and \<^verbatim>\<open>Cube.get_corner\<close> of the base class: the setup moves are
  applied, the canonical slot is read, and \<^verbatim>\<open>parser.invert_moves(moves)\<close> is computed
  and dropped: no move is applied after the read. The result is the value or the error,
  together with the faces the call leaves behind.
\<close>

definition locate ::
  "(string \<times> string) list \<Rightarrow> (string \<Rightarrow> 'a faces \<Rightarrow> 'a piece) \<Rightarrow> string \<Rightarrow> 'a faces
     \<Rightarrow> (error + 'a piece) \<times> 'a faces" where
  "locate table info piece fs =
     (case map_of table piece of
        None \<Rightarrow> (Inl KeyError, fs)
      | Some alg \<Rightarrow>
          (case scramble_to_moves alg of
             Inl e \<Rightarrow> (Inl e, fs)
           | Inr moves \<Rightarrow>
               (case do_moves moves fs of
                  (Some e, fs') \<Rightarrow> (Inl e, fs')
                | (None, fs') \<Rightarrow> (Inr (info piece fs'), fs'))))"

definition get_edge :: "string \<Rightarrow> 'a faces \<Rightarrow> (error + 'a piece) \<times> 'a faces" where
  "get_edge piece fs = locate EDGE_TO_UF edge_info piece fs"

definition get_corner :: "string \<Rightarrow> 'a faces \<Rightarrow> (error + 'a piece) \<times> 'a faces" where
  "get_corner piece fs = locate CORNER_TO_UFR corner_info piece fs"

text \<open>
  \<^verbatim>\<open>itertools.permutations\<close>: the orderings of the characters by position, in
  lexicographic order of the positions.
\<close>

fun picks :: "'a list \<Rightarrow> ('a \<times> 'a list) list" where
  "picks [] = []"
| "picks (x # xs) = (x, xs) # map (\<lambda>(y, ys). (y, x # ys)) (picks xs)"

primrec perms_upto :: "nat \<Rightarrow> 'a list \<Rightarrow> 'a list list" where
  "perms_upto 0 xs = [[]]"
| "perms_upto (Suc n) xs = concat (map (\<lambda>(y, ys). map ((#) y) (perms_upto n ys)) (picks xs))"

definition permutations :: "'a list \<Rightarrow> 'a list list" where
  "permutations xs = perms_upto (length xs) xs"

text \<open>
  \<^verbatim>\<open>Cube.get_sticker\<close>, which \<^verbatim>\<open>HistoryCube\<close> inherits: \<^verbatim>\<open>self.get_edge\<close> and
  \<^verbatim>\<open>self.get_corner\<close> are the methods of the object's own class, here the parameters
  \<open>ge\<close> and \<open>gc\<close>. The first spelling found in a table decides; \<^verbatim>\<open>[sticker[0]]\<close> is a
  dict lookup in the piece.
\<close>

fun sticker_loop ::
  "(string \<Rightarrow> 's \<Rightarrow> (error + 'a piece) \<times> 's) \<Rightarrow> (string \<Rightarrow> 's \<Rightarrow> (error + 'a piece) \<times> 's)
     \<Rightarrow> string \<Rightarrow> string list \<Rightarrow> 's \<Rightarrow> (error + 'a) \<times> 's" where
  "sticker_loop ge gc sticker [] st = (Inl ValueError, st)"
| "sticker_loop ge gc sticker (perm # rest) st =
     (if map_of EDGE_TO_UF perm \<noteq> None then
        (case ge perm st of
           (Inl e, st') \<Rightarrow> (Inl e, st')
         | (Inr info, st') \<Rightarrow>
             (case map_of info (sticker ! 0) of
                None \<Rightarrow> (Inl KeyError, st')
              | Some col \<Rightarrow> (Inr col, st')))
      else if map_of CORNER_TO_UFR perm \<noteq> None then
        (case gc perm st of
           (Inl e, st') \<Rightarrow> (Inl e, st')
         | (Inr info, st') \<Rightarrow>
             (case map_of info (sticker ! 0) of
                None \<Rightarrow> (Inl KeyError, st')
              | Some col \<Rightarrow> (Inr col, st')))
      else sticker_loop ge gc sticker rest st)"

definition get_sticker :: "string \<Rightarrow> 'a faces \<Rightarrow> (error + 'a) \<times> 'a faces" where
  "get_sticker sticker fs = sticker_loop get_edge get_corner sticker (permutations sticker) fs"

text \<open>
  \<^verbatim>\<open>HistoryCube\<close>: the cube's size and faces, and the list \<^verbatim>\<open>_history\<close>.
  \<^verbatim>\<open>HistoryCube.do_moves(moves, save_history)\<close> runs \<^verbatim>\<open>Cube.do_moves\<close> and then, if that
  returned, appends the moves when \<^verbatim>\<open>save_history\<close> holds.
\<close>

record 'a cube =
  csize :: nat
  faces :: "'a faces"

record 'a history_cube = "'a cube" +
  history :: "move list"

definition hdo_moves ::
  "move list \<Rightarrow> bool \<Rightarrow> 'a history_cube \<Rightarrow> error option \<times> 'a history_cube" where
  "hdo_moves moves save_history c =
     (case do_moves moves (faces c) of
        (Some e, fs') \<Rightarrow> (Some e, c\<lparr>faces := fs'\<rparr>)
      | (None, fs') \<Rightarrow>
          (None, c\<lparr>faces := fs',
                   history := (if save_history then history c @ moves else history c)\<rparr>))"

definition hdo_moves_text ::
  "string \<Rightarrow> bool \<Rightarrow> 'a history_cube \<Rightarrow> error option \<times> 'a history_cube" where
  "hdo_moves_text s save_history c =
     (case scramble_to_moves s of
        Inl e \<Rightarrow> (Some e, c)
      | Inr moves \<Rightarrow> hdo_moves moves save_history c)"

text \<open>
  \<^verbatim>\<open>HistoryCube.get_edge\<close> and \<^verbatim>\<open>HistoryCube.get_corner\<close>: setup moves without
  recording, the read, then \<^verbatim>\<open>self.do_moves(parser.invert_moves(moves), False)\<close>.
\<close>

definition hlocate ::
  "(string \<times> string) list \<Rightarrow> (string \<Rightarrow> 'a faces \<Rightarrow> 'a piece) \<Rightarrow> string \<Rightarrow> 'a history_cube
     \<Rightarrow> (error + 'a piece) \<times> 'a history_cube" where
  "hlocate table info piece c =
     (case map_of table piece of
        None \<Rightarrow> (Inl KeyError, c)
      | Some alg \<Rightarrow>
          (case scramble_to_moves alg of
             Inl e \<Rightarrow> (Inl e, c)
           | Inr moves \<Rightarrow>
               (case hdo_moves moves False c of
                  (Some e, c') \<Rightarrow> (Inl e, c')
                | (None, c') \<Rightarrow>
                    (let result = info piece (faces c') in
                     case hdo_moves (invert_moves moves) False c' of
                       (Some e, c'') \<Rightarrow> (Inl e, c'')
                     | (None, c'') \<Rightarrow> (Inr result, c'')))))"

definition hget_edge ::
  "string \<Rightarrow> 'a history_cube \<Rightarrow> (error + 'a piece) \<times> 'a history_cube" where
  "hget_edge piece c = hlocate EDGE_TO_UF edge_info piece c"

definition hget_corner ::
  "string \<Rightarrow> 'a history_cube \<Rightarrow> (error + 'a piece) \<times> 'a history_cube" where
  "hget_corner piece c = hlocate CORNER_TO_UFR corner_info piece c"

definition hget_sticker ::
  "string \<Rightarrow> 'a history_cube \<Rightarrow> (error + 'a) \<times> 'a history_cube" where
  "hget_sticker sticker c =
     sticker_loop hget_edge hget_corner sticker (permutations sticker) c"

section \<open>Well-formed cubes and the closed form of each quarter turn\<close>

text \<open>
  The cube of the program has six 3 by 3 grids (\<^verbatim>\<open>Cube(3)\<close>, and every cube made from
  one by moves). On such a cube each primitive of the engine is an explicit rearrangement
  of the 54 cells.
\<close>

definition wf_grid :: "'a grid \<Rightarrow> bool" where
  "wf_grid g = (length g = 3 \<and> list_all (\<lambda>row. length row = 3) g)"

definition wf_faces :: "'a faces \<Rightarrow> bool" where
  "wf_faces fs =
     (wf_grid (fU fs) \<and> wf_grid (fF fs) \<and> wf_grid (fL fs) \<and> wf_grid (fB fs) \<and>
      wf_grid (fR fs) \<and> wf_grid (fD fs))"

definition cells :: "'a grid \<Rightarrow> 'a list" where
  "cells g = concat g"

definition stickers :: "'a faces \<Rightarrow> 'a list" where
  "stickers fs =
     cells (fU fs) @ cells (fF fs) @ cells (fL fs) @ cells (fB fs) @ cells (fR fs) @
     cells (fD fs)"

lemma length3_cases: "length xs = 3 \<Longrightarrow> \<exists>a b c. xs = [a, b, c]"
  by (auto simp: numeral_3_eq_3 length_Suc_conv)

lemma wf_grid_cases:
  assumes "wf_grid g"
  shows "\<exists>a1 a2 a3 a4 a5 a6 a7 a8 a9. g = [[a1, a2, a3], [a4, a5, a6], [a7, a8, a9]]"
proof -
  from assms obtain x y z where g: "g = [x, y, z]"
    using length3_cases [of g] by (auto simp: wf_grid_def)
  with assms have "length x = 3" "length y = 3" "length z = 3"
    by (simp_all add: wf_grid_def)
  then obtain a1 a2 a3 a4 a5 a6 a7 a8 a9
    where "x = [a1, a2, a3]" "y = [a4, a5, a6]" "z = [a7, a8, a9]"
    using length3_cases [of x] length3_cases [of y] length3_cases [of z] by auto
  with g show ?thesis by blast
qed

lemma wf_grid3 [simp]: "wf_grid [[a1, a2, a3], [a4, a5, a6], [a7, a8, a9]]"
  by (simp add: wf_grid_def)

lemma wf_faces_cases:
  assumes "wf_faces (fs :: 'a faces)"
  obtains u1 u2 u3 u4 u5 u6 u7 u8 u9 f1 f2 f3 f4 f5 f6 f7 f8 f9
    l1 l2 l3 l4 l5 l6 l7 l8 l9 b1 b2 b3 b4 b5 b6 b7 b8 b9
    r1 r2 r3 r4 r5 r6 r7 r8 r9 d1 d2 d3 d4 d5 d6 d7 d8 d9
  where "fs = \<lparr>fU = [[u1, u2, u3], [u4, u5, u6], [u7, u8, u9]],
            fF = [[f1, f2, f3], [f4, f5, f6], [f7, f8, f9]],
            fL = [[l1, l2, l3], [l4, l5, l6], [l7, l8, l9]],
            fB = [[b1, b2, b3], [b4, b5, b6], [b7, b8, b9]],
            fR = [[r1, r2, r3], [r4, r5, r6], [r7, r8, r9]],
            fD = [[d1, d2, d3], [d4, d5, d6], [d7, d8, d9]]\<rparr>"
proof -
  from assms have "wf_grid (fU fs)" "wf_grid (fF fs)" "wf_grid (fL fs)" "wf_grid (fB fs)"
    "wf_grid (fR fs)" "wf_grid (fD fs)"
    by (simp_all add: wf_faces_def)
  then obtain u1 u2 u3 u4 u5 u6 u7 u8 u9 f1 f2 f3 f4 f5 f6 f7 f8 f9
    l1 l2 l3 l4 l5 l6 l7 l8 l9 b1 b2 b3 b4 b5 b6 b7 b8 b9
    r1 r2 r3 r4 r5 r6 r7 r8 r9 d1 d2 d3 d4 d5 d6 d7 d8 d9
    where "fU fs = [[u1, u2, u3], [u4, u5, u6], [u7, u8, u9]]"
      and "fF fs = [[f1, f2, f3], [f4, f5, f6], [f7, f8, f9]]"
      and "fL fs = [[l1, l2, l3], [l4, l5, l6], [l7, l8, l9]]"
      and "fB fs = [[b1, b2, b3], [b4, b5, b6], [b7, b8, b9]]"
      and "fR fs = [[r1, r2, r3], [r4, r5, r6], [r7, r8, r9]]"
      and "fD fs = [[d1, d2, d3], [d4, d5, d6], [d7, d8, d9]]"
    using wf_grid_cases [of "fU fs"] wf_grid_cases [of "fF fs"] wf_grid_cases [of "fL fs"]
      wf_grid_cases [of "fB fs"] wf_grid_cases [of "fR fs"] wf_grid_cases [of "fD fs"]
    by metis
  then have "fs = \<lparr>fU = [[u1, u2, u3], [u4, u5, u6], [u7, u8, u9]],
            fF = [[f1, f2, f3], [f4, f5, f6], [f7, f8, f9]],
            fL = [[l1, l2, l3], [l4, l5, l6], [l7, l8, l9]],
            fB = [[b1, b2, b3], [b4, b5, b6], [b7, b8, b9]],
            fR = [[r1, r2, r3], [r4, r5, r6], [r7, r8, r9]],
            fD = [[d1, d2, d3], [d4, d5, d6], [d7, d8, d9]]\<rparr>"
    by (cases fs) simp
  then show ?thesis by (rule that)
qed

lemma zip_star3:
  "zip_star [[a1, a2, a3], [a4, a5, a6], [a7, a8, a9]] =
     [[a1, a4, a7], [a2, a5, a8], [a3, a6, a9]]"
  by simp

lemma y_step_sym:
  "y_step \<lparr>fU = [[u1, u2, u3], [u4, u5, u6], [u7, u8, u9]],
            fF = [[f1, f2, f3], [f4, f5, f6], [f7, f8, f9]],
            fL = [[l1, l2, l3], [l4, l5, l6], [l7, l8, l9]],
            fB = [[b1, b2, b3], [b4, b5, b6], [b7, b8, b9]],
            fR = [[r1, r2, r3], [r4, r5, r6], [r7, r8, r9]],
            fD = [[d1, d2, d3], [d4, d5, d6], [d7, d8, d9]]\<rparr> =
   \<lparr>fU = [[u7, u4, u1], [u8, u5, u2], [u9, u6, u3]],
    fF = [[r1, r2, r3], [r4, r5, r6], [r7, r8, r9]],
    fL = [[f1, f2, f3], [f4, f5, f6], [f7, f8, f9]],
    fB = [[l1, l2, l3], [l4, l5, l6], [l7, l8, l9]],
    fR = [[b1, b2, b3], [b4, b5, b6], [b7, b8, b9]],
    fD = [[d3, d6, d9], [d2, d5, d8], [d1, d4, d7]]\<rparr>"
  by (simp add: y_step_def face_rotate_def)

lemma quarter_U_sym:
  "quarter U \<lparr>fU = [[u1, u2, u3], [u4, u5, u6], [u7, u8, u9]],
               fF = [[f1, f2, f3], [f4, f5, f6], [f7, f8, f9]],
               fL = [[l1, l2, l3], [l4, l5, l6], [l7, l8, l9]],
               fB = [[b1, b2, b3], [b4, b5, b6], [b7, b8, b9]],
               fR = [[r1, r2, r3], [r4, r5, r6], [r7, r8, r9]],
               fD = [[d1, d2, d3], [d4, d5, d6], [d7, d8, d9]]\<rparr> =
   \<lparr>fU = [[u7, u4, u1], [u8, u5, u2], [u9, u6, u3]],
    fF = [[r1, r2, r3], [f4, f5, f6], [f7, f8, f9]],
    fL = [[f1, f2, f3], [l4, l5, l6], [l7, l8, l9]],
    fB = [[l1, l2, l3], [b4, b5, b6], [b7, b8, b9]],
    fR = [[b1, b2, b3], [r4, r5, r6], [r7, r8, r9]],
    fD = [[d1, d2, d3], [d4, d5, d6], [d7, d8, d9]]\<rparr>"
  by (simp add: quarter_def face_rotate_def swap_U_def swap_D_def swap_F_def transpose_grid_def
      Let_def y_rotate_def turns_def y_step_sym numeral_2_eq_2 numeral_3_eq_3)

lemma quarter_D_sym:
  "quarter D \<lparr>fU = [[u1, u2, u3], [u4, u5, u6], [u7, u8, u9]],
               fF = [[f1, f2, f3], [f4, f5, f6], [f7, f8, f9]],
               fL = [[l1, l2, l3], [l4, l5, l6], [l7, l8, l9]],
               fB = [[b1, b2, b3], [b4, b5, b6], [b7, b8, b9]],
               fR = [[r1, r2, r3], [r4, r5, r6], [r7, r8, r9]],
               fD = [[d1, d2, d3], [d4, d5, d6], [d7, d8, d9]]\<rparr> =
   \<lparr>fU = [[u1, u2, u3], [u4, u5, u6], [u7, u8, u9]],
    fF = [[f1, f2, f3], [f4, f5, f6], [l7, l8, l9]],
    fL = [[l1, l2, l3], [l4, l5, l6], [b7, b8, b9]],
    fB = [[b1, b2, b3], [b4, b5, b6], [r7, r8, r9]],
    fR = [[r1, r2, r3], [r4, r5, r6], [f7, f8, f9]],
    fD = [[d7, d4, d1], [d8, d5, d2], [d9, d6, d3]]\<rparr>"
  by (simp add: quarter_def face_rotate_def swap_U_def swap_D_def swap_F_def transpose_grid_def
      Let_def y_rotate_def turns_def y_step_sym numeral_2_eq_2 numeral_3_eq_3)

lemma quarter_F_sym:
  "quarter F \<lparr>fU = [[u1, u2, u3], [u4, u5, u6], [u7, u8, u9]],
               fF = [[f1, f2, f3], [f4, f5, f6], [f7, f8, f9]],
               fL = [[l1, l2, l3], [l4, l5, l6], [l7, l8, l9]],
               fB = [[b1, b2, b3], [b4, b5, b6], [b7, b8, b9]],
               fR = [[r1, r2, r3], [r4, r5, r6], [r7, r8, r9]],
               fD = [[d1, d2, d3], [d4, d5, d6], [d7, d8, d9]]\<rparr> =
   \<lparr>fU = [[u1, u2, u3], [u4, u5, u6], [l9, l6, l3]],
    fF = [[f7, f4, f1], [f8, f5, f2], [f9, f6, f3]],
    fL = [[l1, l2, d1], [l4, l5, d2], [l7, l8, d3]],
    fB = [[b1, b2, b3], [b4, b5, b6], [b7, b8, b9]],
    fR = [[u7, r2, r3], [u8, r5, r6], [u9, r8, r9]],
    fD = [[r7, r4, r1], [d4, d5, d6], [d7, d8, d9]]\<rparr>"
  by (simp add: quarter_def face_rotate_def swap_U_def swap_D_def swap_F_def transpose_grid_def
      Let_def y_rotate_def turns_def y_step_sym numeral_2_eq_2 numeral_3_eq_3)

lemma quarter_B_sym:
  "quarter B \<lparr>fU = [[u1, u2, u3], [u4, u5, u6], [u7, u8, u9]],
               fF = [[f1, f2, f3], [f4, f5, f6], [f7, f8, f9]],
               fL = [[l1, l2, l3], [l4, l5, l6], [l7, l8, l9]],
               fB = [[b1, b2, b3], [b4, b5, b6], [b7, b8, b9]],
               fR = [[r1, r2, r3], [r4, r5, r6], [r7, r8, r9]],
               fD = [[d1, d2, d3], [d4, d5, d6], [d7, d8, d9]]\<rparr> =
   \<lparr>fU = [[r3, r6, r9], [u4, u5, u6], [u7, u8, u9]],
    fF = [[f1, f2, f3], [f4, f5, f6], [f7, f8, f9]],
    fL = [[u3, l2, l3], [u2, l5, l6], [u1, l8, l9]],
    fB = [[b7, b4, b1], [b8, b5, b2], [b9, b6, b3]],
    fR = [[r1, r2, d9], [r4, r5, d8], [r7, r8, d7]],
    fD = [[d1, d2, d3], [d4, d5, d6], [l1, l4, l7]]\<rparr>"
  by (simp add: quarter_def face_rotate_def swap_U_def swap_D_def swap_F_def transpose_grid_def
      Let_def y_rotate_def turns_def y_step_sym numeral_2_eq_2 numeral_3_eq_3)

lemma quarter_L_sym:
  "quarter L \<lparr>fU = [[u1, u2, u3], [u4, u5, u6], [u7, u8, u9]],
               fF = [[f1, f2, f3], [f4, f5, f6], [f7, f8, f9]],
               fL = [[l1, l2, l3], [l4, l5, l6], [l7, l8, l9]],
               fB = [[b1, b2, b3], [b4, b5, b6], [b7, b8, b9]],
               fR = [[r1, r2, r3], [r4, r5, r6], [r7, r8, r9]],
               fD = [[d1, d2, d3], [d4, d5, d6], [d7, d8, d9]]\<rparr> =
   \<lparr>fU = [[b9, u2, u3], [b6, u5, u6], [b3, u8, u9]],
    fF = [[u1, f2, f3], [u4, f5, f6], [u7, f8, f9]],
    fL = [[l7, l4, l1], [l8, l5, l2], [l9, l6, l3]],
    fB = [[b1, b2, d7], [b4, b5, d4], [b7, b8, d1]],
    fR = [[r1, r2, r3], [r4, r5, r6], [r7, r8, r9]],
    fD = [[f1, d2, d3], [f4, d5, d6], [f7, d8, d9]]\<rparr>"
  by (simp add: quarter_def face_rotate_def swap_U_def swap_D_def swap_F_def transpose_grid_def
      Let_def y_rotate_def turns_def y_step_sym numeral_2_eq_2 numeral_3_eq_3)

lemma quarter_R_sym:
  "quarter R \<lparr>fU = [[u1, u2, u3], [u4, u5, u6], [u7, u8, u9]],
               fF = [[f1, f2, f3], [f4, f5, f6], [f7, f8, f9]],
               fL = [[l1, l2, l3], [l4, l5, l6], [l7, l8, l9]],
               fB = [[b1, b2, b3], [b4, b5, b6], [b7, b8, b9]],
               fR = [[r1, r2, r3], [r4, r5, r6], [r7, r8, r9]],
               fD = [[d1, d2, d3], [d4, d5, d6], [d7, d8, d9]]\<rparr> =
   \<lparr>fU = [[u1, u2, f3], [u4, u5, f6], [u7, u8, f9]],
    fF = [[f1, f2, d3], [f4, f5, d6], [f7, f8, d9]],
    fL = [[l1, l2, l3], [l4, l5, l6], [l7, l8, l9]],
    fB = [[u9, b2, b3], [u6, b5, b6], [u3, b8, b9]],
    fR = [[r7, r4, r1], [r8, r5, r2], [r9, r6, r3]],
    fD = [[d1, d2, b7], [d4, d5, b4], [d7, d8, b1]]\<rparr>"
  by (simp add: quarter_def face_rotate_def swap_U_def swap_D_def swap_F_def transpose_grid_def
      Let_def y_rotate_def turns_def y_step_sym numeral_2_eq_2 numeral_3_eq_3)

lemmas quarter_sym =
  quarter_U_sym quarter_D_sym quarter_F_sym quarter_B_sym quarter_L_sym quarter_R_sym

lemma wf_quarter: "wf_faces fs \<Longrightarrow> wf_faces (quarter k fs)"
  by (erule wf_faces_cases, cases k) (simp_all add: quarter_sym wf_faces_def)

lemma wf_y_step: "wf_faces fs \<Longrightarrow> wf_faces (y_step fs)"
  by (erule wf_faces_cases) (simp add: y_step_sym wf_faces_def)

lemma quarter_four: "wf_faces fs \<Longrightarrow> quarter k (quarter k (quarter k (quarter k fs))) = fs"
  by (erule wf_faces_cases, cases k) (simp_all add: quarter_sym)

lemma y_step_four: "wf_faces fs \<Longrightarrow> y_step (y_step (y_step (y_step fs))) = fs"
  by (erule wf_faces_cases) (simp add: y_step_sym)

lemma mset_quarter: "wf_faces fs \<Longrightarrow> mset (stickers (quarter k fs)) = mset (stickers fs)"
  by (erule wf_faces_cases, cases k) (simp_all add: quarter_sym stickers_def cells_def)

lemma mset_y_step: "wf_faces fs \<Longrightarrow> mset (stickers (y_step fs)) = mset (stickers fs)"
  by (erule wf_faces_cases) (simp add: y_step_sym stickers_def cells_def)

section \<open>Moves permute the stickers\<close>

lemma wf_quarter_pow: "wf_faces fs \<Longrightarrow> wf_faces ((quarter k ^^ n) fs)"
  by (induction n) (simp_all add: wf_quarter)

lemma wf_y_rotate: "wf_faces fs \<Longrightarrow> wf_faces (y_rotate dbl invr fs)"
  by (simp add: y_rotate_def turns_def numeral_2_eq_2 numeral_3_eq_3 wf_y_step)

lemma wf_initial: "wf_faces (initial_faces 3)"
  by (simp add: initial_faces_def generate_face_def wf_faces_def wf_grid_def numeral_3_eq_3)

lemma do_moves_append:
  "do_moves (xs @ ys) fs =
     (case do_moves xs fs of (Some e, fs') \<Rightarrow> (Some e, fs') | (None, fs') \<Rightarrow> do_moves ys fs')"
  by (induction xs arbitrary: fs) (auto split: sum.splits)

lemma wf_do_moves: "wf_faces fs \<Longrightarrow> wf_faces (snd (do_moves ms fs))"
proof (induction ms arbitrary: fs)
  case Nil
  then show ?case by simp
next
  case (Cons m ms)
  then show ?case
    by (auto simp: rotate_move_def wf_y_rotate wf_quarter_pow split: option.splits)
qed

lemma mset_quarter_pow:
  "wf_faces fs \<Longrightarrow> mset (stickers ((quarter k ^^ n) fs)) = mset (stickers fs)"
  by (induction n) (simp_all add: mset_quarter wf_quarter_pow)

lemma mset_y_rotate:
  "wf_faces fs \<Longrightarrow> mset (stickers (y_rotate dbl invr fs)) = mset (stickers fs)"
  by (simp add: y_rotate_def turns_def numeral_2_eq_2 numeral_3_eq_3 mset_y_step wf_y_step)

lemma mset_do_moves:
  "wf_faces fs \<Longrightarrow> mset (stickers (snd (do_moves ms fs))) = mset (stickers fs)"
proof (induction ms arbitrary: fs)
  case Nil
  then show ?case by simp
next
  case (Cons m ms)
  show ?case
  proof (cases "face m = CHR ''y''")
    case True
    with Cons.IH [of "y_rotate False False fs"] Cons.prems show ?thesis
      by (simp add: wf_y_rotate mset_y_rotate)
  next
    case False
    show ?thesis
    proof (cases "key_of (face m)")
      case None
      with False show ?thesis by (simp add: rotate_move_def)
    next
      case (Some k)
      with False Cons.IH [of "(quarter k ^^ turns (double m) (invert m)) fs"] Cons.prems
      show ?thesis
        by (simp add: rotate_move_def wf_quarter_pow mset_quarter_pow)
    qed
  qed
qed

lemma stickers_initial:
  "stickers (initial_faces 3) =
     replicate 9 WHITE @ replicate 9 GREEN @ replicate 9 ORANGE @ replicate 9 BLUE @
     replicate 9 RED @ replicate 9 YELLOW"
  by (simp add: initial_faces_def generate_face_def stickers_def cells_def numeral_3_eq_3
      eval_nat_numeral)

lemma count_initial:
  "count (mset (stickers (initial_faces 3))) WHITE = 9"
  "count (mset (stickers (initial_faces 3))) GREEN = 9"
  "count (mset (stickers (initial_faces 3))) ORANGE = 9"
  "count (mset (stickers (initial_faces 3))) BLUE = 9"
  "count (mset (stickers (initial_faces 3))) RED = 9"
  "count (mset (stickers (initial_faces 3))) YELLOW = 9"
  by (simp_all add: stickers_initial WHITE_def GREEN_def ORANGE_def BLUE_def RED_def YELLOW_def)

text \<open>
  C6. Every move, a face turn or the reorientation \<^verbatim>\<open>y\<close>, rearranges the stickers and
  recolours none: on any cube of six 3 by 3 grids the multiset of the 54 stickers after
  \<^verbatim>\<open>do_moves\<close> (whatever the moves, also when a move with an unknown face stops the call)
  is the multiset before it. From the solved cube \<^verbatim>\<open>Cube(3)\<close> there are therefore always
  54 stickers, 9 of each of the six colours.
\<close>

theorem moves_permute_stickers:
  "(wf_faces fs \<longrightarrow> mset (stickers (snd (do_moves ms fs))) = mset (stickers fs)) \<and>
   length (stickers (snd (do_moves ms (initial_faces 3)))) = 54 \<and>
   count_list (stickers (snd (do_moves ms (initial_faces 3)))) WHITE = 9 \<and>
   count_list (stickers (snd (do_moves ms (initial_faces 3)))) YELLOW = 9 \<and>
   count_list (stickers (snd (do_moves ms (initial_faces 3)))) GREEN = 9 \<and>
   count_list (stickers (snd (do_moves ms (initial_faces 3)))) BLUE = 9 \<and>
   count_list (stickers (snd (do_moves ms (initial_faces 3)))) RED = 9 \<and>
   count_list (stickers (snd (do_moves ms (initial_faces 3)))) ORANGE = 9"
proof -
  let ?fs = "snd (do_moves ms (initial_faces 3))"
  have m: "mset (stickers ?fs) = mset (stickers (initial_faces 3))"
    by (rule mset_do_moves [OF wf_initial])
  have c: "count_list (stickers ?fs) x = count (mset (stickers (initial_faces 3))) x" for x
    by (simp add: m [symmetric] count_mset)
  have "size (mset (stickers ?fs)) = size (mset (stickers (initial_faces 3)))"
    by (simp only: m)
  then have l: "length (stickers ?fs) = 54"
    by (simp add: stickers_initial)
  show ?thesis
    using l by (simp add: c count_initial mset_do_moves)
qed

theorem moves_permute_stickers_witness:
  "wf_faces (initial_faces 3) \<and>
   mset (stickers (snd (do_moves [Move (CHR ''R'') False False, Move (CHR ''y'') True False,
                                  Move (CHR ''U'') False True] (initial_faces 3)))) =
     mset (stickers (initial_faces 3))"
  using moves_permute_stickers
    [of "initial_faces 3"
        "[Move (CHR ''R'') False False, Move (CHR ''y'') True False, Move (CHR ''U'') False True]"]
    wf_initial
  by blast


section \<open>Inverting a move sequence\<close>

lemma invert_move_twice: "invert_move (invert_move m) = m"
  by (cases m) (simp add: invert_move_def)

lemma invert_moves_twice: "invert_moves (invert_moves s) = s"
  by (simp add: invert_moves_def rev_map invert_move_twice o_def)

lemma key_of_y: "key_of (CHR ''y'') = None"
  by (simp add: key_of_def)

lemma quarter_undo:
  assumes "wf_faces fs"
  shows "(quarter k ^^ turns (double (invert_move m)) (invert (invert_move m)))
           ((quarter k ^^ turns (double m) (invert m)) fs) = fs"
proof -
  have q4: "quarter k (quarter k (quarter k (quarter k fs))) = fs"
    by (rule quarter_four [OF assms])
  show ?thesis
    by (cases m) (simp add: invert_move_def turns_def numeral_2_eq_2 numeral_3_eq_3 q4)
qed

lemma rotate_move_undo:
  assumes "wf_faces fs" and "rotate_move m fs = Inr fs1"
  shows "rotate_move (invert_move m) fs1 = Inr fs"
proof -
  from assms(2) obtain k where k: "key_of (face m) = Some k"
    and fs1: "fs1 = (quarter k ^^ turns (double m) (invert m)) fs"
    by (auto simp: rotate_move_def split: option.splits)
  have "face (invert_move m) = face m"
    by (simp add: invert_move_def)
  with k fs1 quarter_undo [OF assms(1), where k = k and m = m] show ?thesis
    by (simp add: rotate_move_def)
qed

lemma do_moves_undo:
  assumes "wf_faces fs" and "list_all (\<lambda>m. key_of (face m) \<noteq> None) s"
  shows "\<exists>fs'. do_moves s fs = (None, fs') \<and> wf_faces fs' \<and>
               do_moves (invert_moves s) fs' = (None, fs)"
  using assms
proof (induction s arbitrary: fs)
  case Nil
  then show ?case by (simp add: invert_moves_def)
next
  case (Cons m ms)
  from Cons.prems(2) obtain k where k: "key_of (face m) = Some k"
    and ms: "list_all (\<lambda>m. key_of (face m) \<noteq> None) ms"
    by auto
  from k have ny: "face m \<noteq> CHR ''y''"
    using key_of_y by auto
  define fs1 where "fs1 = (quarter k ^^ turns (double m) (invert m)) fs"
  have r: "rotate_move m fs = Inr fs1"
    by (simp add: rotate_move_def k fs1_def)
  have wf1: "wf_faces fs1"
    unfolding fs1_def by (rule wf_quarter_pow [OF Cons.prems(1)])
  from Cons.IH [OF wf1 ms] obtain fs' where fs': "do_moves ms fs1 = (None, fs')"
    "wf_faces fs'" "do_moves (invert_moves ms) fs' = (None, fs1)"
    by blast
  have undo: "rotate_move (invert_move m) fs1 = Inr fs"
    by (rule rotate_move_undo [OF Cons.prems(1) r])
  have nyi: "face (invert_move m) \<noteq> CHR ''y''"
    using ny by (simp add: invert_move_def)
  have "invert_moves (m # ms) = invert_moves ms @ [invert_move m]"
    by (simp add: invert_moves_def)
  then have "do_moves (invert_moves (m # ms)) fs' = (None, fs)"
    using fs'(3) undo nyi by (simp add: do_moves_append)
  moreover have "do_moves (m # ms) fs = (None, fs')"
    using ny r fs'(1) by simp
  ultimately show ?case
    using fs'(2) by blast
qed

text \<open>
  C5. On every cube of six 3 by 3 grids, and for every sequence \<open>s\<close> of moves whose faces
  are among U, D, F, B, L, R, \<^verbatim>\<open>do_moves(s)\<close> returns, and \<^verbatim>\<open>do_moves(invert_moves(s))\<close>
  on the cube it leaves returns and restores the faces exactly. Inverting twice gives
  \<open>s\<close> back, for every list of moves.
\<close>

theorem invert_moves_restores:
  "wf_faces fs \<Longrightarrow>
   list_all (\<lambda>m. face m \<in> {CHR ''U'', CHR ''D'', CHR ''F'', CHR ''B'', CHR ''L'', CHR ''R''}) s \<Longrightarrow>
   (\<exists>fs'. do_moves s fs = (None, fs') \<and> do_moves (invert_moves s) fs' = (None, fs)) \<and>
   invert_moves (invert_moves s) = s"
proof -
  assume wf: "wf_faces fs"
    and s: "list_all (\<lambda>m. face m \<in> {CHR ''U'', CHR ''D'', CHR ''F'', CHR ''B'', CHR ''L'', CHR ''R''}) s"
  have "list_all (\<lambda>m. key_of (face m) \<noteq> None) s"
    by (rule list.pred_mono_strong [OF s]) (auto simp: key_of_def)
  from do_moves_undo [OF wf this] show ?thesis
    by (auto simp: invert_moves_twice)
qed

theorem invert_moves_restores_witness:
  "wf_faces (initial_faces 3) \<and>
   list_all (\<lambda>m. face m \<in> {CHR ''U'', CHR ''D'', CHR ''F'', CHR ''B'', CHR ''L'', CHR ''R''})
     [Move (CHR ''R'') False False, Move (CHR ''U'') True False, Move (CHR ''F'') False True] \<and>
   (\<exists>fs'. do_moves [Move (CHR ''R'') False False, Move (CHR ''U'') True False,
                     Move (CHR ''F'') False True] (initial_faces 3) = (None, fs') \<and>
          do_moves (invert_moves [Move (CHR ''R'') False False, Move (CHR ''U'') True False,
                                  Move (CHR ''F'') False True]) fs' = (None, initial_faces 3))"
proof -
  have a: "list_all (\<lambda>m. face m \<in> {CHR ''U'', CHR ''D'', CHR ''F'', CHR ''B'', CHR ''L'', CHR ''R''})
     [Move (CHR ''R'') False False, Move (CHR ''U'') True False, Move (CHR ''F'') False True]"
    by simp
  from invert_moves_restores [OF wf_initial a] wf_initial a show ?thesis
    by blast
qed

section \<open>The reorientation move\<close>

lemma y_rotate_initial:
  "y_rotate False False (initial_faces 3) \<noteq> y_rotate False True (initial_faces 3)"
proof
  assume "y_rotate False False (initial_faces 3) = y_rotate False True (initial_faces 3)"
  then have "fF (y_rotate False False (initial_faces 3)) = fF (y_rotate False True (initial_faces 3))"
    by simp
  then show False
    by (simp add: y_rotate_def turns_def numeral_3_eq_3 y_step_def face_rotate_def
        initial_faces_def generate_face_def RED_def ORANGE_def)
qed

text \<open>
  C10. \<^verbatim>\<open>do_moves\<close> calls \<^verbatim>\<open>self._y_rotate()\<close> with no argument for every move whose face
  is \<^verbatim>\<open>y\<close>: whatever the move's \<^verbatim>\<open>invert\<close> and \<^verbatim>\<open>double\<close>, the cube gets exactly one
  clockwise quarter reorientation. So \<^verbatim>\<open>Move('y', True, False)\<close> is not the inverse
  reorientation \<^verbatim>\<open>_y_rotate(inverse=True)\<close> (on the solved cube the two differ), and
  \<^verbatim>\<open>y\<close> followed by its inverted move is a half turn, not the identity.
\<close>

theorem y_move_ignores_flags:
  "do_moves [Move (CHR ''y'') i d] fs = (None, y_rotate False False fs) \<and>
   do_moves (Move (CHR ''y'') i d # ms) fs = do_moves ms (y_rotate False False fs) \<and>
   do_moves [Move (CHR ''y'') False False, Move (CHR ''y'') True False] fs =
     (None, y_rotate True False fs) \<and>
   snd (do_moves [Move (CHR ''y'') True False] (initial_faces 3)) \<noteq>
     y_rotate False True (initial_faces 3)"
  using y_rotate_initial
  by (simp add: y_rotate_def turns_def numeral_2_eq_2)


section \<open>The optimizer's combination table and its examples\<close>

lemma clean_example_1: "clean_moves ''R R'' = ''R2''"
  by code_simp

lemma clean_example_2: "clean_moves ''F F' U2 U2'' = []"
  by code_simp

lemma clean_example_3: "clean_moves ''R2 R'' = ''R'' @ prime"
  by code_simp

lemma clean_example_4: "clean_moves ''U U D D U U2'' = ''U2 D2 U'' @ prime"
  by code_simp

lemma clean_table:
  "clean_loop [[c], [c]] 0 = [[c, CHR ''2'']]"
  "clean_loop [[c], [c, CHR 0x27]] 0 = []"
  "clean_loop [[c], [c, CHR ''2'']] 0 = [[c, CHR 0x27]]"
  "clean_loop [[c, CHR 0x27], [c]] 0 = []"
  "clean_loop [[c, CHR 0x27], [c, CHR 0x27]] 0 = [[c, CHR ''2'']]"
  "clean_loop [[c, CHR 0x27], [c, CHR ''2'']] 0 = [[c]]"
  "clean_loop [[c, CHR ''2''], [c]] 0 = [[c, CHR 0x27]]"
  "clean_loop [[c, CHR ''2''], [c, CHR 0x27]] 0 = [[c]]"
  "clean_loop [[c, CHR ''2''], [c, CHR ''2'']] 0 = []"
  by (simp_all add: combine_def is_prime_def is_double_def del_def prime_def)

text \<open>
  C3 as the code has it. \<^verbatim>\<open>clean_moves\<close> returns \<^verbatim>\<open>R2\<close> on \<^verbatim>\<open>R R\<close>, the empty string on
  \<^verbatim>\<open>F F' U2 U2\<close> and \<^verbatim>\<open>R'\<close> on \<^verbatim>\<open>R2 R\<close>; on \<^verbatim>\<open>U U D D U U2\<close> it returns
  \<^verbatim>\<open>U2 D2 U'\<close>, the last two tokens being a quarter turn and a half turn of U, which the
  table combines to the inverse quarter turn. The nine entries of the table, for any
  face character \<open>c\<close>, are the last nine conjuncts.
\<close>

theorem clean_moves_examples:
  "clean_moves ''R R'' = ''R2'' \<and>
   clean_moves ''F F' U2 U2'' = [] \<and>
   clean_moves ''R2 R'' = ''R'' @ prime \<and>
   clean_moves ''U U D D U U2'' = ''U2 D2 U'' @ prime \<and>
   clean_loop [[c], [c]] 0 = [[c, CHR ''2'']] \<and>
   clean_loop [[c], [c, CHR 0x27]] 0 = [] \<and>
   clean_loop [[c], [c, CHR ''2'']] 0 = [[c, CHR 0x27]] \<and>
   clean_loop [[c, CHR 0x27], [c]] 0 = [] \<and>
   clean_loop [[c, CHR 0x27], [c, CHR 0x27]] 0 = [[c, CHR ''2'']] \<and>
   clean_loop [[c, CHR 0x27], [c, CHR ''2'']] 0 = [[c]] \<and>
   clean_loop [[c, CHR ''2''], [c]] 0 = [[c, CHR 0x27]] \<and>
   clean_loop [[c, CHR ''2''], [c, CHR 0x27]] 0 = [[c]] \<and>
   clean_loop [[c, CHR ''2''], [c, CHR ''2'']] 0 = []"
  by (simp only: clean_example_1 clean_example_2 clean_example_3 clean_example_4 clean_table
      simp_thms)

text \<open>
  The claim's fourth example fails: the result on \<^verbatim>\<open>U U D D U U2\<close> is not \<^verbatim>\<open>U2 D2 U2\<close>.
\<close>

theorem clean_moves_fourth_example_counterexample:
  "clean_moves ''U U D D U U2'' \<noteq> ''U2 D2 U2''"
  by (simp add: clean_example_4 prime_def)


section \<open>Parsing never rejects a token\<close>

lemma split_from_nonempty: "[] \<notin> set (split_from cur s)"
  by (induction s arbitrary: cur) auto

lemma split_nonempty: "[] \<notin> set (split s)"
  by (simp add: split_def split_from_nonempty)

lemma tokens_to_moves_total:
  "[] \<notin> set ts \<Longrightarrow>
   tokens_to_moves ts = Inr (map (\<lambda>t. Move (hd t) (CHR 0x27 \<in> set t) (CHR ''2'' \<in> set t)) ts)"
  by (induction ts) (auto simp: token_to_move_def split: list.splits)

lemma scramble_to_moves_total:
  "scramble_to_moves s =
     Inr (map (\<lambda>t. Move (hd t) (CHR 0x27 \<in> set t) (CHR ''2'' \<in> set t)) (split s))"
  by (simp add: scramble_to_moves_def tokens_to_moves_total split_nonempty)

lemma do_moves_unknown_face:
  assumes "key_of (face m) = None" and "face m \<noteq> CHR ''y''" and "do_moves ms fs = (None, fs')"
  shows "do_moves (ms @ m # rest) fs = (Some KeyError, fs')"
  using assms by (simp add: do_moves_append rotate_move_def)

text \<open>
  C4 as the code has it. \<^verbatim>\<open>scramble_to_moves\<close> never fails and checks no face: for every
  text it returns one move per whitespace-separated token, the move's face being the
  token's first character whatever it is. A move whose face is neither one of the six
  labels nor \<^verbatim>\<open>y\<close> is refused only when \<^verbatim>\<open>do_moves\<close> reaches it, with \<^verbatim>\<open>KeyError\<close>, and
  the moves before it stay applied.
\<close>

theorem scramble_to_moves_never_fails:
  "scramble_to_moves s =
     Inr (map (\<lambda>t. Move (hd t) (CHR 0x27 \<in> set t) (CHR ''2'' \<in> set t)) (split s)) \<and>
   (key_of (face m) = None \<and> face m \<noteq> CHR ''y'' \<and> do_moves ms fs = (None, fs') \<longrightarrow>
      do_moves (ms @ m # rest) fs = (Some KeyError, fs'))"
  using scramble_to_moves_total do_moves_unknown_face by blast

lemma do_R_initial:
  "do_moves [Move (CHR ''R'') False False] (initial_faces 3) =
     (None, quarter R (initial_faces 3))"
  by (simp add: rotate_move_def key_of_def turns_def)

lemma quarter_R_initial: "quarter R (initial_faces 3) \<noteq> initial_faces 3"
proof
  assume "quarter R (initial_faces 3) = initial_faces 3"
  then have "fU (quarter R (initial_faces 3)) = fU (initial_faces 3)"
    by simp
  then show False
    by (simp add: initial_faces_def generate_face_def numeral_3_eq_3 quarter_R_sym
        WHITE_def GREEN_def)
qed

theorem scramble_to_moves_never_fails_witness:
  "key_of (face (Move (CHR ''X'') False False)) = None \<and>
   face (Move (CHR ''X'') False False) \<noteq> CHR ''y'' \<and>
   do_moves [Move (CHR ''R'') False False] (initial_faces 3) =
     (None, quarter R (initial_faces 3)) \<and>
   do_moves ([Move (CHR ''R'') False False] @ Move (CHR ''X'') False False # [])
     (initial_faces 3) = (Some KeyError, quarter R (initial_faces 3))"
proof -
  have a: "key_of (face (Move (CHR ''X'') False False)) = None"
    by (simp add: key_of_def)
  have b: "face (Move (CHR ''X'') False False) \<noteq> CHR ''y''"
    by simp
  from scramble_to_moves_never_fails
    [of "[]" "Move (CHR ''X'') False False" "[Move (CHR ''R'') False False]" "initial_faces 3"
        "quarter R (initial_faces 3)" "[]"]
    a b do_R_initial
  show ?thesis by blast
qed

text \<open>
  The claim fails on the text \<^verbatim>\<open>R X\<close>: parsing returns two moves, the second with the
  face \<^verbatim>\<open>X\<close>; applying the text to the solved cube raises \<^verbatim>\<open>KeyError\<close> only after the
  turn of R, which stays applied.
\<close>

theorem invalid_notation_counterexample:
  "scramble_to_moves ''R X'' =
     Inr [Move (CHR ''R'') False False, Move (CHR ''X'') False False] \<and>
   do_moves_text ''R X'' (initial_faces 3) = (Some KeyError, quarter R (initial_faces 3)) \<and>
   quarter R (initial_faces 3) \<noteq> initial_faces 3"
proof -
  have p: "scramble_to_moves ''R X'' =
     Inr [Move (CHR ''R'') False False, Move (CHR ''X'') False False]"
    by (simp add: scramble_to_moves_def split_def is_space_def token_to_move_def)
  have "do_moves_text ''R X'' (initial_faces 3) = (Some KeyError, quarter R (initial_faces 3))"
    by (simp add: do_moves_text_def p rotate_move_def key_of_def turns_def)
  with p quarter_R_initial show ?thesis by blast
qed

section \<open>The round trip of well-formed text\<close>

text \<open>
  The grammar of the notation: a face letter among U, D, L, R, F, B, alone or followed by
  \<^verbatim>\<open>'\<close> or by \<^verbatim>\<open>2\<close>.
\<close>

definition face_letter :: "char \<Rightarrow> bool" where
  "face_letter c = (c \<in> set ''UDLRFB'')"

definition wf_token :: "string \<Rightarrow> bool" where
  "wf_token t =
     (case t of
        [c] \<Rightarrow> face_letter c
      | [c, x] \<Rightarrow> face_letter c \<and> (x = CHR 0x27 \<or> x = CHR ''2'')
      | _ \<Rightarrow> False)"

lemma token_roundtrip:
  "wf_token t \<Longrightarrow>
   move_to_token (Move (hd t) (CHR 0x27 \<in> set t) (CHR ''2'' \<in> set t)) = t"
  by (auto simp: wf_token_def face_letter_def move_to_token_def prime_def
      split: list.splits)

lemma tokens_roundtrip:
  "list_all wf_token ts \<Longrightarrow>
   map move_to_token (map (\<lambda>t. Move (hd t) (CHR 0x27 \<in> set t) (CHR ''2'' \<in> set t)) ts) = ts"
  by (induction ts) (simp_all add: token_roundtrip)

lemma split_from_token:
  "list_all (\<lambda>c. \<not> is_space c) t \<Longrightarrow> split_from cur (t @ s) = split_from (cur @ t) s"
  by (induction t arbitrary: cur) simp_all

lemma split_join:
  "list_all (\<lambda>t. t \<noteq> [] \<and> list_all (\<lambda>c. \<not> is_space c) t) ts \<Longrightarrow> split_from [] (join ts) = ts"
proof (induction ts rule: join.induct)
  case 1
  then show ?case by simp
next
  case (2 x)
  then show ?case
    using split_from_token [of x "[]" "[]"] by simp
next
  case (3 x y ys)
  have sp: "is_space (CHR '' '')"
    by (simp add: is_space_def)
  from 3 have "split_from [] (x @ CHR '' '' # join (y # ys)) = split_from x (CHR '' '' # join (y # ys))"
    using split_from_token [of x "[]" "CHR '' '' # join (y # ys)"] by simp
  with 3 sp show ?case by simp
qed

lemma wf_token_plain: "wf_token t \<Longrightarrow> t \<noteq> [] \<and> list_all (\<lambda>c. \<not> is_space c) t"
  by (auto simp: wf_token_def face_letter_def is_space_def split: list.splits)

text \<open>
  C7. For every text whose tokens all follow the grammar, parsing succeeds and serializing
  the moves gives the tokens back joined by single spaces, which is the text with its
  whitespace normalized. In particular a list of well-formed tokens written with single
  spaces is reproduced exactly.
\<close>

theorem serialize_parse_roundtrip:
  "list_all wf_token (split s) \<Longrightarrow>
   (\<exists>ms. scramble_to_moves s = Inr ms \<and> moves_to_scramble ms = join (split s)) \<and>
   (list_all wf_token ts \<longrightarrow>
      (\<exists>ms. scramble_to_moves (join ts) = Inr ms \<and> moves_to_scramble ms = join ts))"
proof -
  assume s: "list_all wf_token (split s)"
  have a: "\<exists>ms. scramble_to_moves s = Inr ms \<and> moves_to_scramble ms = join (split s)"
    by (simp add: scramble_to_moves_total moves_to_scramble_def tokens_roundtrip [OF s]
        del: map_map)
  have b: "\<exists>ms. scramble_to_moves (join ts) = Inr ms \<and> moves_to_scramble ms = join ts"
    if ts: "list_all wf_token ts"
  proof -
    have "list_all (\<lambda>t. t \<noteq> [] \<and> list_all (\<lambda>c. \<not> is_space c) t) ts"
      by (rule list.pred_mono_strong [OF ts]) (rule wf_token_plain)
    then have "split (join ts) = ts"
      by (simp add: split_def split_join)
    then show ?thesis
      by (simp add: scramble_to_moves_total moves_to_scramble_def tokens_roundtrip [OF ts]
          del: map_map)
  qed
  from a b show ?thesis by blast
qed

theorem serialize_parse_roundtrip_witness:
  "list_all wf_token (split '' R  U'  F2 '') \<and>
   (\<exists>ms. scramble_to_moves '' R  U'  F2 '' = Inr ms \<and> moves_to_scramble ms = ''R U' F2'')"
proof -
  have sp: "split '' R  U'  F2 '' = [''R'', ''U'' @ prime, ''F2'']"
    by (simp add: split_def is_space_def prime_def)
  have a: "list_all wf_token (split '' R  U'  F2 '')"
    by (simp add: sp wf_token_def face_letter_def prime_def)
  have j: "join (split '' R  U'  F2 '') = ''R U' F2''"
    by (simp add: sp prime_def)
  from serialize_parse_roundtrip [OF a, of "[]"] a j show ?thesis
    by simp
qed


section \<open>Piece lookup and the state it leaves\<close>

lemma quarter_U3_initial:
  "quarter U (quarter U (quarter U (initial_faces 3))) \<noteq> initial_faces 3"
proof
  assume "quarter U (quarter U (quarter U (initial_faces 3))) = initial_faces 3"
  then have "fF (quarter U (quarter U (quarter U (initial_faces 3)))) = fF (initial_faces 3)"
    by simp
  then show False
    by (simp add: initial_faces_def generate_face_def numeral_3_eq_3 quarter_U_sym
        GREEN_def ORANGE_def)
qed

text \<open>
  C1 at the base class. \<^verbatim>\<open>Cube.get_edge("UL")\<close> on the solved cube returns the edge's
  colours and leaves the setup move \<^verbatim>\<open>U'\<close> applied: the faces after the call are those
  after three quarter turns of U, not the faces before it.
\<close>

theorem cube_get_edge_keeps_setup:
  "get_edge ''UL'' (initial_faces 3) =
     (Inr [(CHR ''U'', WHITE), (CHR ''L'', ORANGE)],
      quarter U (quarter U (quarter U (initial_faces 3)))) \<and>
   snd (get_edge ''UL'' (initial_faces 3)) \<noteq> initial_faces 3"
proof -
  have "get_edge ''UL'' (initial_faces 3) =
     (Inr [(CHR ''U'', WHITE), (CHR ''L'', ORANGE)],
      quarter U (quarter U (quarter U (initial_faces 3))))"
    by (simp add: get_edge_def locate_def EDGE_TO_UF_def prime_def scramble_to_moves_def
        split_def is_space_def token_to_move_def rotate_move_def key_of_def turns_def
        numeral_3_eq_3 edge_info_def dict_of_def initial_faces_def generate_face_def
        quarter_U_sym)
  with quarter_U3_initial show ?thesis by simp
qed

text \<open>
  The override in \<^verbatim>\<open>HistoryCube\<close> does apply the inverted setup moves, without
  recording: on a cube of six 3 by 3 grids the faces and the history come back unchanged.
\<close>

definition table_ok :: "(string \<times> string) list \<Rightarrow> bool" where
  "table_ok table =
     list_all (\<lambda>(piece, alg).
        case scramble_to_moves alg of
          Inl e \<Rightarrow> False
        | Inr ms \<Rightarrow> list_all (\<lambda>m. key_of (face m) \<noteq> None) ms) table"

lemma edge_table_ok: "table_ok EDGE_TO_UF"
  by (simp add: table_ok_def EDGE_TO_UF_def scramble_to_moves_def split_def is_space_def
      token_to_move_def prime_def key_of_def)

lemma corner_table_ok: "table_ok CORNER_TO_UFR"
  by (simp add: table_ok_def CORNER_TO_UFR_def scramble_to_moves_def split_def is_space_def
      token_to_move_def prime_def key_of_def)

lemma table_ok_lookup:
  assumes "table_ok table" and "map_of table piece = Some alg"
  obtains ms where "scramble_to_moves alg = Inr ms"
    and "list_all (\<lambda>m. key_of (face m) \<noteq> None) ms"
proof -
  from assms(2) have "(piece, alg) \<in> set table"
    by (rule map_of_SomeD)
  with assms(1) have "case scramble_to_moves alg of Inl e \<Rightarrow> False
      | Inr ms \<Rightarrow> list_all (\<lambda>m. key_of (face m) \<noteq> None) ms"
    by (auto simp: table_ok_def list_all_iff)
  then show ?thesis
    by (cases "scramble_to_moves alg") (auto intro: that)
qed

lemma hlocate_restores:
  assumes "wf_faces (faces c)" and "table_ok table"
  shows "snd (hlocate table info piece c) = c"
proof (cases "map_of table piece")
  case None
  then show ?thesis by (simp add: hlocate_def)
next
  case (Some alg)
  from table_ok_lookup [OF assms(2) Some] obtain ms
    where ms: "scramble_to_moves alg = Inr ms" "list_all (\<lambda>m. key_of (face m) \<noteq> None) ms"
    by blast
  from do_moves_undo [OF assms(1) ms(2)] obtain fs'
    where "do_moves ms (faces c) = (None, fs')" "do_moves (invert_moves ms) fs' = (None, faces c)"
    by blast
  then show ?thesis
    by (simp add: hlocate_def Some ms(1) hdo_moves_def Let_def)
qed

lemma sticker_loop_restores:
  assumes "\<And>p. snd (ge p st) = st" and "\<And>p. snd (gc p st) = st"
  shows "snd (sticker_loop ge gc sticker perms st) = st"
proof (induction perms)
  case Nil
  then show ?case by simp
next
  case (Cons perm rest)
  have "snd (ge perm st) = st" "snd (gc perm st) = st"
    by (rule assms)+
  then show ?case
    using Cons
    by (cases "ge perm st"; cases "gc perm st") (auto split: sum.splits option.splits)
qed

lemma history_cube_lookups_restore:
  assumes "wf_faces (faces c)"
  shows "snd (hget_edge piece c) = c" and "snd (hget_corner piece c) = c"
    and "snd (hget_sticker sticker c) = c"
proof -
  show e: "snd (hget_edge p c) = c" for p
    by (simp add: hget_edge_def hlocate_restores [OF assms edge_table_ok])
  show k: "snd (hget_corner p c) = c" for p
    by (simp add: hget_corner_def hlocate_restores [OF assms corner_table_ok])
  show "snd (hget_sticker sticker c) = c"
    unfolding hget_sticker_def by (rule sticker_loop_restores) (rule e k)+
qed


section \<open>The solver: \<^verbatim>\<open>cube/solver.py\<close>\<close>

text \<open>
  Every stage works on a \<^verbatim>\<open>HistoryCube\<close> that it changes in place. A step is a function
  from the cube to the value it returns, or the error it raises, and the cube it leaves;
  \<open>then_do\<close> runs a second step on the value of the first and stops at an error.
  \<open>run\<close> is \<^verbatim>\<open>cube.do_moves(text)\<close> with the default \<^verbatim>\<open>save_history=True\<close>.
\<close>

type_synonym hcube = "colour history_cube"

type_synonym 'r step = "hcube \<Rightarrow> (error + 'r) \<times> hcube"

definition then_do :: "'r step \<Rightarrow> ('r \<Rightarrow> 'q step) \<Rightarrow> 'q step" where
  "then_do m f c = (case m c of (Inl e, c') \<Rightarrow> (Inl e, c') | (Inr a, c') \<Rightarrow> f a c')"

definition skip :: "unit step" where
  "skip c = (Inr (), c)"

definition raise :: "error \<Rightarrow> 'r step" where
  "raise e c = (Inl e, c)"

definition run :: "string \<Rightarrow> unit step" where
  "run s c =
     (case hdo_moves_text s True c of (Some e, c') \<Rightarrow> (Inl e, c') | (None, c') \<Rightarrow> (Inr (), c'))"

text \<open>\<^verbatim>\<open>piece[key]\<close> on the dict a lookup returned.\<close>

definition item :: "char \<Rightarrow> colour piece \<Rightarrow> colour step" where
  "item k info = (case map_of info k of None \<Rightarrow> raise KeyError | Some col \<Rightarrow> (\<lambda>c. (Inr col, c)))"

text \<open>
  A \<^verbatim>\<open>while\<close> loop whose condition and body are steps. It need not end: \<open>None\<close> is the
  loop that runs forever.
\<close>

partial_function (option) while_do ::
  "bool step \<Rightarrow> unit step \<Rightarrow> hcube \<Rightarrow> ((error + unit) \<times> hcube) option" where
  "while_do cond body c =
     (case cond c of
        (Inl e, c1) \<Rightarrow> Some (Inl e, c1)
      | (Inr b, c1) \<Rightarrow>
          if b then
            (case body c1 of
               (Inl e, c2) \<Rightarrow> Some (Inl e, c2)
             | (Inr u, c2) \<Rightarrow> while_do cond body c2)
          else Some (Inr (), c1))"

declare while_do.simps [code]

text \<open>
  Running a stage that may loop, then the rest: \<open>None\<close> when the stage does not return.
\<close>

definition and_then ::
  "((error + unit) \<times> hcube) option \<Rightarrow> (hcube \<Rightarrow> ((error + unit) \<times> hcube) option)
     \<Rightarrow> ((error + unit) \<times> hcube) option" where
  "and_then r f =
     (case r of
        None \<Rightarrow> None
      | Some (Inl e, c) \<Rightarrow> Some (Inl e, c)
      | Some (Inr u, c) \<Rightarrow> f c)"

subsection \<open>Stage 1: the cross\<close>

definition CROSS_EDGES :: "(string \<times> string) list" where
  "CROSS_EDGES =
     [(''UF'', []),
      (''UL'', (''U'' @ prime)),
      (''UR'', ''U''),
      (''UB'', ''U2''),
      (''LB'', (''L U' L'' @ prime)),
      (''LD'', (''L2 U'' @ prime)),
      (''LF'', ''L' U' L''),
      (''RB'', ''R' U R''),
      (''RD'', ''R2 U''),
      (''RF'', (''R U R'' @ prime)),
      (''DB'', ''B2 U2''),
      (''DF'', ''F2'')]"

text \<open>
  The inner loop of \<^verbatim>\<open>solve_cross\<close> over the entries of \<^verbatim>\<open>EDGES\<close>, left by \<^verbatim>\<open>break\<close>
  at the first slot that holds the wanted edge; then the loop over the four colours, and
  the closing \<^verbatim>\<open>D2\<close>.
\<close>

fun cross_scan :: "colour \<Rightarrow> (string \<times> string) list \<Rightarrow> unit step" where
  "cross_scan colour [] = skip"
| "cross_scan colour ((edge, alg) # rest) =
     then_do (hget_edge edge) (\<lambda>info.
       if dict_values info = [colour, YELLOW] \<or> dict_values info = [YELLOW, colour] then
         then_do (run alg) (\<lambda>_.
         then_do (hget_edge ''UF'') (\<lambda>uf.
         then_do (item (CHR ''U'') uf) (\<lambda>up.
         then_do (if up = YELLOW then run ''F2'' else run ''R U' R' F'') (\<lambda>_.
         run (''D'' @ prime)))))
       else cross_scan colour rest)"

fun cross_colours :: "colour list \<Rightarrow> unit step" where
  "cross_colours [] = skip"
| "cross_colours (colour # rest) =
     then_do (cross_scan colour CROSS_EDGES) (\<lambda>_. cross_colours rest)"

definition solve_cross :: "unit step" where
  "solve_cross = then_do (cross_colours [BLUE, ORANGE, GREEN, RED]) (\<lambda>_. run ''D2'')"

subsection \<open>Stage 2: the first-layer corners\<close>

definition CORNERS :: "(string \<times> string) list" where
  "CORNERS =
     [(''UFR'', ''U2 U2''),
      (''DFR'', (''R U R' U'' @ prime)),
      (''DBR'', ''R' U R U''),
      (''URB'', ''U''),
      (''ULF'', (''U'' @ prime)),
      (''UBL'', ''U2''),
      (''DFL'', ''L' U' L''),
      (''DBL'', ''L U L' U'')]"

fun corner_scan :: "colour \<Rightarrow> colour \<Rightarrow> (string \<times> string) list \<Rightarrow> unit step" where
  "corner_scan colour1 colour2 [] = skip"
| "corner_scan colour1 colour2 ((corner, alg) # rest) =
     then_do (hget_corner corner) (\<lambda>info.
       let cur_corner = dict_values info in
       if colour1 \<in> set cur_corner \<and> colour2 \<in> set cur_corner \<and> YELLOW \<in> set cur_corner then
         then_do (run alg) (\<lambda>_.
         then_do (hget_sticker ''UFR'') (\<lambda>s1.
         then_do
           (if s1 = YELLOW then run (''U R U2 R' U R U' R'' @ prime)
            else then_do (hget_sticker ''FUR'') (\<lambda>s2.
                   if s2 = YELLOW then run (''U R U' R'' @ prime) else run (''R U R'' @ prime))) (\<lambda>_.
         run (''D'' @ prime))))
       else corner_scan colour1 colour2 rest)"

fun corner_pairs :: "(colour \<times> colour) list \<Rightarrow> unit step" where
  "corner_pairs [] = skip"
| "corner_pairs ((colour1, colour2) # rest) =
     then_do (corner_scan colour1 colour2 CORNERS) (\<lambda>_. corner_pairs rest)"

definition solve_corners :: "unit step" where
  "solve_corners = corner_pairs [(GREEN, RED), (BLUE, RED), (BLUE, ORANGE), (GREEN, ORANGE)]"

subsection \<open>Stage 3: the middle-layer edges\<close>

definition MIDDLE_EDGES :: "(string \<times> string) list" where
  "MIDDLE_EDGES =
     [(''UF'', ''U2 U2''),
      (''UR'', ''U''),
      (''UL'', (''U'' @ prime)),
      (''UB'', ''U2''),
      (''RF'', (''R' F R F' R U R' U'' @ prime)),
      (''LF'', ''L F' L' F L' U' L U''),
      (''RB'', (''R' U R B' R B R'' @ prime)),
      (''LB'', ''L U' L' B L' B' L'')]"

fun middle_scan :: "colour \<Rightarrow> colour \<Rightarrow> (string \<times> string) list \<Rightarrow> unit step" where
  "middle_scan colour1 colour2 [] = skip"
| "middle_scan colour1 colour2 ((edge, alg) # rest) =
     then_do (hget_edge edge) (\<lambda>info.
       let cur_edge = dict_values info in
       if cur_edge = [colour1, colour2] \<or> cur_edge = [colour2, colour1] then
         then_do (run alg) (\<lambda>_.
         then_do (hget_sticker ''FU'') (\<lambda>s1.
         then_do (if s1 = colour1 then run ''U R U' R' F R' F' R'' else run (''U2 R' F R F' R U R'' @ prime)) (\<lambda>_.
         run ''y'')))
       else middle_scan colour1 colour2 rest)"

fun middle_pairs :: "(colour \<times> colour) list \<Rightarrow> unit step" where
  "middle_pairs [] = skip"
| "middle_pairs ((colour1, colour2) # rest) =
     then_do (middle_scan colour1 colour2 MIDDLE_EDGES) (\<lambda>_. middle_pairs rest)"

definition solve_middle_edges :: "unit step" where
  "solve_middle_edges =
     middle_pairs [(GREEN, RED), (RED, BLUE), (BLUE, ORANGE), (ORANGE, GREEN)]"

subsection \<open>Stage 4: EOLL\<close>

text \<open>Reading a list of stickers, left to right.\<close>

fun stickers_of :: "string list \<Rightarrow> colour list step" where
  "stickers_of [] = (\<lambda>c. (Inr [], c))"
| "stickers_of (s # ss) =
     then_do (hget_sticker s) (\<lambda>x. then_do (stickers_of ss) (\<lambda>xs c. (Inr (x # xs), c)))"

text \<open>\<^verbatim>\<open>for _ in range(4)\<close>: the number of passes left is the first argument.\<close>

fun eoll_loop :: "nat \<Rightarrow> unit step" where
  "eoll_loop 0 = skip"
| "eoll_loop (Suc n) =
     then_do (stickers_of [''UB'', ''UR'', ''UF'', ''UL'']) (\<lambda>top_layer.
       let eo_state = map (\<lambda>face. face = WHITE) top_layer in
       if eo_state = [False, False, False, False] then run (''R U2 R2 F R F' U2 R' F R F'' @ prime)
       else if eo_state = [False, False, True, True] then run (''U F U R U' R' F'' @ prime @ prime)
       else if eo_state = [False, True, False, True] then run (''F R U R' U' F'' @ prime)
       else then_do (run ''U'') (\<lambda>_. eoll_loop n))"

definition solve_eoll :: "unit step" where
  "solve_eoll = eoll_loop 4"

subsection \<open>Stage 5: OCLL\<close>

definition OCLL_S :: string where
  "OCLL_S = ''R U R' U R U2 R' U''"
definition OCLL_AS :: string where
  "OCLL_AS = ''U R' U' R U' R' U2 R''"
definition OCLL_H :: string where
  "OCLL_H = (''F R U R' U' R U R' U' R U R' U' F'' @ prime)"
definition OCLL_Headlights :: string where
  "OCLL_Headlights = ''R2 D' R U2 R' D R U2 R''"
definition OCLL_Sidebars :: string where
  "OCLL_Sidebars = (''U' L F R' F' L' F R F'' @ prime)"
definition OCLL_Fish :: string where
  "OCLL_Fish = ''R' U2 R' D' R U2 R' D R2''"
definition OCLL_Pi :: string where
  "OCLL_Pi = ''U R U2 R2 U' R2 U' R2 U2 R''"

text \<open>
  The condition of the \<^verbatim>\<open>while\<close> loop of the first case: \<^verbatim>\<open>or\<close> reads the second
  sticker only when the first is white.
\<close>

definition no_headlights :: "bool step" where
  "no_headlights =
     then_do (hget_sticker ''FUR'') (\<lambda>a.
       if a \<noteq> WHITE then (\<lambda>c. (Inr True, c))
       else then_do (hget_sticker ''FUL'') (\<lambda>b c. (Inr (b \<noteq> WHITE), c)))"

definition ocll_none :: "hcube \<Rightarrow> ((error + unit) \<times> hcube) option" where
  "ocll_none c =
     and_then (while_do no_headlights (run ''U'') c)
       (\<lambda>c1. Some (then_do (hget_corner ''UFR'') (\<lambda>ufr.
                    then_do (item (CHR ''F'') ufr) (\<lambda>x.
                    then_do (hget_corner ''UBL'') (\<lambda>ubl.
                    then_do (item (CHR ''B'') ubl) (\<lambda>y.
                    if x = y then run OCLL_H else run OCLL_Pi)))) c1))"

fun ocll_loop :: "nat \<Rightarrow> hcube \<Rightarrow> ((error + unit) \<times> hcube) option" where
  "ocll_loop 0 c = Some (Inr (), c)"
| "ocll_loop (Suc n) c =
     (case stickers_of [''UBL'', ''UBR'', ''UFR'', ''UFL''] c of
        (Inl e, c1) \<Rightarrow> Some (Inl e, c1)
      | (Inr top_layer, c1) \<Rightarrow>
          (let co_state = map (\<lambda>face. face = WHITE) top_layer in
           if co_state = [False, False, False, False] then ocll_none c1
           else if co_state = [False, False, False, True] then
             Some (then_do (hget_sticker ''FUR'') (\<lambda>s.
                     if s = WHITE then run OCLL_S else run OCLL_AS) c1)
           else if co_state = [False, False, True, True] then
             Some (then_do (hget_sticker ''BRU'') (\<lambda>s.
                     if s = WHITE then run OCLL_Headlights else run OCLL_Sidebars) c1)
           else if co_state = [False, True, False, True] then
             Some (then_do (hget_sticker ''RUF'') (\<lambda>s.
                   then_do (if s \<noteq> WHITE then run ''U2'' else skip) (\<lambda>_.
                   run OCLL_Fish)) c1)
           else (case run ''U'' c1 of
                   (Inl e, c2) \<Rightarrow> Some (Inl e, c2)
                 | (Inr u, c2) \<Rightarrow> ocll_loop n c2)))"

definition solve_ocll :: "hcube \<Rightarrow> ((error + unit) \<times> hcube) option" where
  "solve_ocll c = ocll_loop 4 c"

subsection \<open>Stage 6: CPLL\<close>

definition CPLL_alg :: string where
  "CPLL_alg = ''R' U L' U2 R U' R' U2 R L ''"

text \<open>
  The \<^verbatim>\<open>for\<close> loop with its \<^verbatim>\<open>else\<close> clause, which runs when the four passes end
  without \<^verbatim>\<open>break\<close>. \<^verbatim>\<open>and\<close> reads the second pair of stickers only when the first pair
  agrees.
\<close>

fun cpll_loop :: "nat \<Rightarrow> unit step" where
  "cpll_loop 0 = run (CPLL_alg @ '' U '' @ CPLL_alg)"
| "cpll_loop (Suc n) =
     then_do (hget_sticker ''FUR'') (\<lambda>a.
     then_do (hget_sticker ''FUL'') (\<lambda>b.
     then_do (if a = b then
                then_do (hget_sticker ''BLU'') (\<lambda>p.
                then_do (hget_sticker ''BRU'') (\<lambda>q c. (Inr (p = q), c)))
              else (\<lambda>c. (Inr False, c))) (\<lambda>solved.
       if solved then skip
       else
         then_do (hget_sticker ''FRU'') (\<lambda>x.
         then_do (hget_sticker ''FLU'') (\<lambda>y.
           if x = y then run CPLL_alg
           else then_do (run ''U'') (\<lambda>_. cpll_loop n))))))"

definition solve_cpll :: "unit step" where
  "solve_cpll = cpll_loop 4"

subsection \<open>Stage 7: EPLL\<close>

definition EPLL_alg :: string where
  "EPLL_alg = ''R U' R U R U R U' R' U' R2''"

text \<open>The counting loop: \<^verbatim>\<open>solved_edges\<close> is threaded through the four passes.\<close>

fun epll_count :: "nat \<Rightarrow> nat \<Rightarrow> nat step" where
  "epll_count 0 solved_edges = (\<lambda>c. (Inr solved_edges, c))"
| "epll_count (Suc n) solved_edges =
     then_do (hget_sticker ''FU'') (\<lambda>a.
     then_do (hget_sticker ''FUR'') (\<lambda>b.
     then_do (run ''U'') (\<lambda>_.
       epll_count n (if a = b then solved_edges + 1 else solved_edges))))"

definition differ :: "string \<Rightarrow> string \<Rightarrow> bool step" where
  "differ s t =
     then_do (hget_sticker s) (\<lambda>a. then_do (hget_sticker t) (\<lambda>b c. (Inr (a \<noteq> b), c)))"

definition solve_epll :: "hcube \<Rightarrow> ((error + unit) \<times> hcube) option" where
  "solve_epll c =
     (case epll_count 4 0 c of
        (Inl e, c1) \<Rightarrow> Some (Inl e, c1)
      | (Inr solved_edges, c1) \<Rightarrow>
          and_then
            (if solved_edges \<noteq> 4 then
               and_then (Some ((if solved_edges = 0 then run EPLL_alg else skip) c1)) (\<lambda>c2.
               and_then (while_do (differ ''FU'' ''FUR'') (run ''U'') c2) (\<lambda>c3.
               and_then (Some (run ''U2'' c3)) (\<lambda>c4.
               while_do (differ ''FU'' ''FUR'') (run EPLL_alg) c4)))
             else Some (Inr (), c1))
            (\<lambda>c5. while_do (differ ''FU'' ''FR'') (run ''U'') c5))"

subsection \<open>\<^verbatim>\<open>generate_solution\<close>\<close>

text \<open>
  The seven stages in order on the copy, then the recorded history serialized, cleaned
  and parsed again. The progress lines the function prints are not modelled.
\<close>

definition solve_stages :: "hcube \<Rightarrow> ((error + unit) \<times> hcube) option" where
  "solve_stages c =
     and_then (Some (solve_cross c)) (\<lambda>c1.
     and_then (Some (solve_corners c1)) (\<lambda>c2.
     and_then (Some (solve_middle_edges c2)) (\<lambda>c3.
     and_then (Some (solve_eoll c3)) (\<lambda>c4.
     and_then (solve_ocll c4) (\<lambda>c5.
     and_then (Some (solve_cpll c5)) (\<lambda>c6.
     solve_epll c6))))))"

definition solution_of :: "hcube \<Rightarrow> error + move list" where
  "solution_of c = scramble_to_moves (clean_moves (moves_to_scramble (history c)))"

text \<open>
  The caller's cube is an object with its size and a reference to its dict of faces; the
  dicts live in a heap, addressed by position. \<^verbatim>\<open>deepcopy(cube.faces)\<close> allocates a new
  dict with the same content, and \<^verbatim>\<open>HistoryCube(cube.size, ...)\<close> is a new object on that
  dict with an empty history (a dict of six faces is truthy, so the constructor keeps it).
  Every stage writes to the copy only; the heap after the call holds what the stages
  left in it. The result is \<open>None\<close> when a stage does not return.
\<close>

type_synonym addr = nat

type_synonym heap = "colour faces list"

record cube_obj =
  osize :: nat
  ofaces :: addr

definition new_history_cube :: "nat \<Rightarrow> colour faces \<Rightarrow> hcube" where
  "new_history_cube n fs = \<lparr>csize = n, faces = fs, history = []\<rparr>"

definition generate_solution ::
  "cube_obj \<Rightarrow> heap \<Rightarrow> ((error + move list) \<times> heap) option" where
  "generate_solution cube h =
     (let a = length h;
          h1 = h @ [h ! ofaces cube];
          cube_copy = new_history_cube (osize cube) (h1 ! a)
      in case solve_stages cube_copy of
           None \<Rightarrow> None
         | Some (Inl e, c) \<Rightarrow> Some (Inl e, h1[a := faces c])
         | Some (Inr u, c) \<Rightarrow> Some (solution_of c, h1[a := faces c]))"

section \<open>The solver reads the faces only\<close>

text \<open>
  No method reads \<^verbatim>\<open>size\<close> after the constructor. \<open>resize\<close> changes it; a step is
  \<open>sizefree\<close> when it does the same on a resized cube.
\<close>

definition resize :: "nat \<Rightarrow> hcube \<Rightarrow> hcube" where
  "resize n c = c\<lparr>csize := n\<rparr>"

definition sizefree :: "'r step \<Rightarrow> bool" where
  "sizefree m = (\<forall>n c. m (resize n c) = map_prod id (resize n) (m c))"

definition sizefree_opt :: "(hcube \<Rightarrow> ((error + unit) \<times> hcube) option) \<Rightarrow> bool" where
  "sizefree_opt f = (\<forall>n c. f (resize n c) = map_option (map_prod id (resize n)) (f c))"

lemma sizefreeI: "(\<And>n c. m (resize n c) = map_prod id (resize n) (m c)) \<Longrightarrow> sizefree m"
  by (simp add: sizefree_def)

lemma sizefreeD: "sizefree m \<Longrightarrow> m (resize n c) = map_prod id (resize n) (m c)"
  by (simp add: sizefree_def)

lemma resize_simps [simp]:
  "faces (resize n c) = faces c" "history (resize n c) = history c"
  "csize (resize n c) = n" "resize (csize c) (resize n c) = c"
  "resize n c\<lparr>faces := fs\<rparr> = resize n (c\<lparr>faces := fs\<rparr>)"
  "resize n c\<lparr>faces := fs, history := hs\<rparr> = resize n (c\<lparr>faces := fs, history := hs\<rparr>)"
  by (simp_all add: resize_def)

lemma hdo_moves_resize:
  "hdo_moves ms b (resize n c) = map_prod id (resize n) (hdo_moves ms b c)"
  by (cases "do_moves ms (faces c)") (auto simp: hdo_moves_def split: option.splits)

lemma sizefree_return [intro!, simp]: "sizefree (\<lambda>c. (r, c))"
  by (simp add: sizefree_def)

lemma sizefree_skip [intro!, simp]: "sizefree skip"
  by (simp add: sizefree_def skip_def)

lemma sizefree_raise [intro!, simp]: "sizefree (raise e)"
  by (simp add: sizefree_def raise_def)

lemma sizefree_item [intro!, simp]: "sizefree (item k info)"
  by (simp add: item_def split: option.splits)

lemma sizefree_run [intro!, simp]: "sizefree (run s)"
proof (rule sizefreeI)
  fix n c
  show "run s (resize n c) = map_prod id (resize n) (run s c)"
    by (cases "scramble_to_moves s"; cases "hdo_moves (projr (scramble_to_moves s)) True c")
      (auto simp: run_def hdo_moves_text_def hdo_moves_resize split: option.splits)
qed

lemma sizefree_then_do [intro!]:
  assumes "sizefree m" and "\<And>a. sizefree (f a)"
  shows "sizefree (then_do m f)"
proof (rule sizefreeI)
  fix n c
  show "then_do m f (resize n c) = map_prod id (resize n) (then_do m f c)"
    using sizefreeD [OF assms(1), of n c] sizefreeD [OF assms(2)]
    by (cases "m c") (auto simp: then_do_def split: sum.splits)
qed

lemma sizefree_if [intro!]: "sizefree a \<Longrightarrow> sizefree b \<Longrightarrow> sizefree (if p then a else b)"
  by simp

lemma sizefree_hlocate: "sizefree (hlocate table info piece)"
proof (rule sizefreeI)
  fix n c
  show "hlocate table info piece (resize n c) = map_prod id (resize n) (hlocate table info piece c)"
  proof (cases "map_of table piece")
    case None
    then show ?thesis by (simp add: hlocate_def)
  next
    case (Some alg)
    show ?thesis
    proof (cases "scramble_to_moves alg")
      case (Inl e)
      with Some show ?thesis by (simp add: hlocate_def)
    next
      case (Inr ms)
      obtain e1 c1 where r1: "hdo_moves ms False c = (e1, c1)"
        by (cases "hdo_moves ms False c")
      obtain e2 c2 where r2: "hdo_moves (invert_moves ms) False c1 = (e2, c2)"
        by (cases "hdo_moves (invert_moves ms) False c1")
      from r1 r2 Some Inr show ?thesis
        by (auto simp: hlocate_def hdo_moves_resize Let_def split: option.splits)
    qed
  qed
qed

lemma sizefree_hget_edge [intro!, simp]: "sizefree (hget_edge piece)"
  unfolding hget_edge_def [abs_def] by (rule sizefree_hlocate)

lemma sizefree_hget_corner [intro!, simp]: "sizefree (hget_corner piece)"
  unfolding hget_corner_def [abs_def] by (rule sizefree_hlocate)

lemma sizefree_sticker_loop:
  assumes "\<And>p. sizefree (ge p)" and "\<And>p. sizefree (gc p)"
  shows "sizefree (sticker_loop ge gc sticker perms)"
proof (rule sizefreeI)
  fix n c
  show "sticker_loop ge gc sticker perms (resize n c) =
        map_prod id (resize n) (sticker_loop ge gc sticker perms c)"
  proof (induction perms)
    case Nil
    then show ?case by simp
  next
    case (Cons perm rest)
    have "ge perm (resize n c) = map_prod id (resize n) (ge perm c)"
      "gc perm (resize n c) = map_prod id (resize n) (gc perm c)"
      using assms by (simp_all add: sizefreeD)
    with Cons show ?case
      by (cases "ge perm c"; cases "gc perm c") (auto split: sum.splits option.splits)
  qed
qed

lemma sizefree_hget_sticker [intro!, simp]: "sizefree (hget_sticker sticker)"
  unfolding hget_sticker_def [abs_def]
  by (rule sizefree_sticker_loop) simp_all

lemma sizefree_stickers_of [intro!, simp]: "sizefree (stickers_of ss)"
  by (induction ss) auto

lemma sizefree_cross_scan [intro!, simp]: "sizefree (cross_scan colour tab)"
  by (induction tab) auto

lemma sizefree_cross_colours [intro!, simp]: "sizefree (cross_colours cs)"
  by (induction cs) auto

lemma sizefree_solve_cross: "sizefree solve_cross"
  unfolding solve_cross_def by auto

lemma sizefree_corner_scan [intro!, simp]: "sizefree (corner_scan colour1 colour2 tab)"
  by (induction tab) (auto simp: Let_def)

lemma sizefree_corner_pairs [intro!, simp]: "sizefree (corner_pairs ps)"
  by (induction ps rule: corner_pairs.induct) auto

lemma sizefree_solve_corners: "sizefree solve_corners"
  unfolding solve_corners_def by auto

lemma sizefree_middle_scan [intro!, simp]: "sizefree (middle_scan colour1 colour2 tab)"
  by (induction tab) (auto simp: Let_def)

lemma sizefree_middle_pairs [intro!, simp]: "sizefree (middle_pairs ps)"
  by (induction ps rule: middle_pairs.induct) auto

lemma sizefree_solve_middle_edges: "sizefree solve_middle_edges"
  unfolding solve_middle_edges_def by auto

lemma sizefree_eoll_loop [intro!, simp]: "sizefree (eoll_loop n)"
  by (induction n) (auto simp: Let_def)

lemma sizefree_solve_eoll: "sizefree solve_eoll"
  unfolding solve_eoll_def by auto

lemma sizefree_cpll_loop [intro!, simp]: "sizefree (cpll_loop n)"
  by (induction n) auto

lemma sizefree_solve_cpll: "sizefree solve_cpll"
  unfolding solve_cpll_def by auto

lemma sizefree_epll_count [intro!, simp]: "sizefree (epll_count n k)"
  by (induction n arbitrary: k) auto

lemma sizefree_differ [intro!, simp]: "sizefree (differ s t)"
  unfolding differ_def by auto

lemma sizefree_no_headlights [intro!, simp]: "sizefree no_headlights"
  unfolding no_headlights_def by auto

text \<open>
  The \<^verbatim>\<open>while\<close> loop: a run that returns on one cube returns the same on the resized
  cube, hence a run that does not return does not return on the resized cube either.
\<close>

lemma while_do_resize_Some:
  assumes "while_do cond body c = Some r" and "sizefree cond" and "sizefree body"
  shows "while_do cond body (resize n c) = Some (map_prod id (resize n) r)"
proof -
  have "sizefree cond \<longrightarrow> sizefree body \<longrightarrow>
        while_do cond body (resize n c) = Some (map_prod id (resize n) r)"
    using assms(1)
  proof (induct rule: while_do.raw_induct [rotated, consumes 1, case_names step])
    case (step w cond body c r)
    show ?case
    proof (intro impI)
      assume sc: "sizefree cond" and sb: "sizefree body"
      obtain x c1 where cc: "cond c = (x, c1)"
        by (cases "cond c")
      then have cr: "cond (resize n c) = (x, resize n c1)"
        using sizefreeD [OF sc, of n c] by simp
      show "while_do cond body (resize n c) = Some (map_prod id (resize n) r)"
      proof (cases x)
        case (Inl e)
        with step(2) cc cr show ?thesis
          by (subst while_do.simps) auto
      next
        case (Inr b)
        show ?thesis
        proof (cases b)
          case False
          with step(2) cc cr Inr show ?thesis
            by (subst while_do.simps) auto
        next
          case True
          obtain y c2 where bc: "body c1 = (y, c2)"
            by (cases "body c1")
          then have br: "body (resize n c1) = (y, resize n c2)"
            using sizefreeD [OF sb, of n c1] by simp
          show ?thesis
          proof (cases y)
            case (Inl e)
            with step(2) cc cr bc br True \<open>x = Inr b\<close> show ?thesis
              by (subst while_do.simps) auto
          next
            case (Inr u)
            with step(2) cc bc True \<open>x = Inr b\<close> have "w cond body c2 = Some r"
              by simp
            from step(1) [OF this] sc sb
            have "while_do cond body (resize n c2) = Some (map_prod id (resize n) r)"
              by (simp add: id_def)
            with cr br True \<open>x = Inr b\<close> Inr show ?thesis
              by (subst while_do.simps) simp
          qed
        qed
      qed
    qed
  qed
  with assms(2,3) show ?thesis by simp
qed

lemma sizefree_while_do:
  assumes "sizefree cond" and "sizefree body"
  shows "sizefree_opt (while_do cond body)"
  unfolding sizefree_opt_def
proof (intro allI)
  fix n c
  show "while_do cond body (resize n c) =
        map_option (map_prod id (resize n)) (while_do cond body c)"
  proof (cases "while_do cond body c")
    case (Some r)
    with while_do_resize_Some [OF Some assms, of n] show ?thesis by simp
  next
    case None
    show ?thesis
    proof (cases "while_do cond body (resize n c)")
      case None
      with \<open>while_do cond body c = None\<close> show ?thesis by simp
    next
      case (Some r)
      from while_do_resize_Some [OF Some assms, of "csize c"]
      have "while_do cond body c \<noteq> None" by simp
      with None show ?thesis by simp
    qed
  qed
qed

lemma sizefree_opt_Some: "sizefree m \<Longrightarrow> sizefree_opt (\<lambda>c. Some (m c))"
  by (simp add: sizefree_def sizefree_opt_def)

lemma sizefree_opt_and_then:
  assumes "sizefree_opt f" and "sizefree_opt g"
  shows "sizefree_opt (\<lambda>c. and_then (f c) g)"
  unfolding sizefree_opt_def
proof (intro allI)
  fix n c
  from assms have f: "f (resize n c) = map_option (map_prod id (resize n)) (f c)"
    and g: "\<And>c'. g (resize n c') = map_option (map_prod id (resize n)) (g c')"
    by (simp_all add: sizefree_opt_def)
  show "and_then (f (resize n c)) g = map_option (map_prod id (resize n)) (and_then (f c) g)"
    by (cases "f c") (auto simp: f g and_then_def split: sum.splits)
qed

lemma sizefree_ocll_none: "sizefree_opt ocll_none"
  unfolding ocll_none_def [abs_def]
  by (intro sizefree_opt_and_then sizefree_while_do sizefree_opt_Some) auto

lemma sizefree_ocll_loop: "sizefree_opt (ocll_loop k)"
proof (induction k)
  case 0
  show ?case by (simp add: sizefree_opt_def)
next
  case (Suc k)
  show ?case
    unfolding sizefree_opt_def
  proof (intro allI)
    fix n c
    let ?read = "stickers_of [''UBL'', ''UBR'', ''UFR'', ''UFL'']"
    obtain x c1 where s: "?read c = (x, c1)"
      by (cases "?read c")
    have "sizefree ?read"
      by (rule sizefree_stickers_of)
    from sizefreeD [OF this, of n c] s have sr: "?read (resize n c) = (x, resize n c1)"
      by simp
    have a: "ocll_none (resize n c1) = map_option (map_prod id (resize n)) (ocll_none c1)"
      using sizefree_ocll_none by (simp add: sizefree_opt_def)
    have b1: "then_do (hget_sticker ''FUR'') (\<lambda>s. if s = WHITE then run OCLL_S else run OCLL_AS)
                (resize n c1) =
              map_prod id (resize n)
                (then_do (hget_sticker ''FUR'') (\<lambda>s. if s = WHITE then run OCLL_S else run OCLL_AS) c1)"
      by (rule sizefreeD) auto
    have b2: "then_do (hget_sticker ''BRU'')
                (\<lambda>s. if s = WHITE then run OCLL_Headlights else run OCLL_Sidebars) (resize n c1) =
              map_prod id (resize n)
                (then_do (hget_sticker ''BRU'')
                   (\<lambda>s. if s = WHITE then run OCLL_Headlights else run OCLL_Sidebars) c1)"
      by (rule sizefreeD) auto
    have b3: "then_do (hget_sticker ''RUF'')
                (\<lambda>s. then_do (if s \<noteq> WHITE then run ''U2'' else skip) (\<lambda>_. run OCLL_Fish))
                (resize n c1) =
              map_prod id (resize n)
                (then_do (hget_sticker ''RUF'')
                   (\<lambda>s. then_do (if s \<noteq> WHITE then run ''U2'' else skip) (\<lambda>_. run OCLL_Fish)) c1)"
      by (rule sizefreeD) auto
    obtain y c2 where u: "run ''U'' c1 = (y, c2)"
      by (cases "run ''U'' c1")
    have "sizefree (run ''U'')"
      by (rule sizefree_run)
    from sizefreeD [OF this, of n c1] u have ur: "run ''U'' (resize n c1) = (y, resize n c2)"
      by simp
    have l: "ocll_loop k (resize n c2) = map_option (map_prod id (resize n)) (ocll_loop k c2)"
      using Suc by (simp add: sizefree_opt_def)
    have "ocll_loop (Suc k) (resize n c) =
          map_option (map_prod id (resize n)) (ocll_loop (Suc k) c)"
      unfolding ocll_loop.simps s sr
      by (cases x; cases y) (simp_all only: u ur a l b1 b2 b3 Let_def prod.case sum.case
          option.map map_prod_simp id_apply if_distrib [of "map_option _"] cong: if_cong)
    then show "ocll_loop (Suc k) (resize n c) =
          map_option (map_prod id (resize n)) (ocll_loop (Suc k) c)" .
  qed
qed

lemma sizefree_solve_ocll: "sizefree_opt solve_ocll"
  unfolding solve_ocll_def [abs_def] by (rule sizefree_ocll_loop)

lemma sizefree_solve_epll: "sizefree_opt solve_epll"
  unfolding sizefree_opt_def
proof (intro allI)
  fix n c
  obtain x c1 where s: "epll_count 4 0 c = (x, c1)"
    by (cases "epll_count 4 0 c")
  then have sr: "epll_count 4 0 (resize n c) = (x, resize n c1)"
    using sizefreeD [OF sizefree_epll_count, of 4 0 n c] by simp
  have tail: "sizefree_opt (\<lambda>c5. while_do (differ ''FU'' ''FR'') (run ''U'') c5)"
    by (intro sizefree_while_do) auto
  have mid: "sizefree_opt (\<lambda>c1.
      and_then (Some ((if k = 0 then run EPLL_alg else skip) c1)) (\<lambda>c2.
      and_then (while_do (differ ''FU'' ''FUR'') (run ''U'') c2) (\<lambda>c3.
      and_then (Some (run ''U2'' c3)) (\<lambda>c4.
      while_do (differ ''FU'' ''FUR'') (run EPLL_alg) c4))))" for k :: nat
    by (intro sizefree_opt_and_then sizefree_while_do sizefree_opt_Some) auto
  have whole: "sizefree_opt (\<lambda>c1.
      and_then
        (if k \<noteq> 4 then
           and_then (Some ((if k = 0 then run EPLL_alg else skip) c1)) (\<lambda>c2.
           and_then (while_do (differ ''FU'' ''FUR'') (run ''U'') c2) (\<lambda>c3.
           and_then (Some (run ''U2'' c3)) (\<lambda>c4.
           while_do (differ ''FU'' ''FUR'') (run EPLL_alg) c4)))
         else Some (Inr (), c1))
        (\<lambda>c5. while_do (differ ''FU'' ''FR'') (run ''U'') c5))" for k :: nat
  proof (cases "k = 4")
    case True
    have "sizefree_opt (\<lambda>c1. and_then (Some (skip c1))
            (\<lambda>c5. while_do (differ ''FU'' ''FR'') (run ''U'') c5))"
      by (intro sizefree_opt_and_then sizefree_opt_Some tail) auto
    with True show ?thesis by (simp add: skip_def)
  next
    case False
    from sizefree_opt_and_then [OF mid tail] False show ?thesis by simp
  qed
  show "solve_epll (resize n c) = map_option (map_prod id (resize n)) (solve_epll c)"
    using whole by (cases x) (simp_all add: solve_epll_def s sr sizefree_opt_def)
qed

lemma sizefree_solve_stages: "sizefree_opt solve_stages"
  unfolding solve_stages_def [abs_def]
  by (intro sizefree_opt_and_then sizefree_opt_Some sizefree_solve_cross sizefree_solve_corners
      sizefree_solve_middle_edges sizefree_solve_eoll sizefree_solve_ocll sizefree_solve_cpll
      sizefree_solve_epll)

lemma solution_of_resize: "solution_of (resize n c) = solution_of c"
  by (simp add: solution_of_def)

lemma solve_stages_new_size:
  "solve_stages (new_history_cube n fs) =
     map_option (map_prod id (resize n)) (solve_stages (new_history_cube m fs))"
proof -
  have "new_history_cube n fs = resize n (new_history_cube m fs)"
    by (simp add: new_history_cube_def resize_def)
  with sizefree_solve_stages show ?thesis
    by (simp add: sizefree_opt_def)
qed

lemma generate_solution_result:
  assumes "ofaces cube < length h"
  shows "map_option fst (generate_solution cube h) =
         map_option (\<lambda>(r, c). case r of Inl e \<Rightarrow> Inl e | Inr u \<Rightarrow> solution_of c)
           (solve_stages (new_history_cube 0 (h ! ofaces cube)))"
proof -
  have "solve_stages (new_history_cube (osize cube) (h ! ofaces cube)) =
        map_option (map_prod id (resize (osize cube)))
          (solve_stages (new_history_cube 0 (h ! ofaces cube)))"
    by (rule solve_stages_new_size)
  then show ?thesis
    by (cases "solve_stages (new_history_cube 0 (h ! ofaces cube))")
      (auto simp: generate_solution_def Let_def solution_of_resize split: sum.splits)
qed

lemma generate_solution_heap:
  assumes "generate_solution cube h = Some (r, h')"
  shows "take (length h) h' = h"
  using assms
  by (auto simp: generate_solution_def Let_def split: option.splits sum.splits)

text \<open>
  C8. \<^verbatim>\<open>generate_solution\<close> writes to its own copy only: when it returns, or raises, every
  dict that was allocated before the call, the caller's among them, holds what it held,
  and the caller's object is never assigned. What it returns depends on the face grids
  of the caller's cube alone: another cube object with equal grids, whatever its size,
  its address and the rest of the heap, gets the same result, and runs forever exactly
  when this one does.
\<close>

theorem generate_solution_frame:
  assumes "ofaces cube < length h"
  shows "(case generate_solution cube h of
            None \<Rightarrow> True
          | Some (r, h') \<Rightarrow> take (length h) h' = h \<and> h' ! ofaces cube = h ! ofaces cube) \<and>
         (ofaces cube2 < length h2 \<and> h2 ! ofaces cube2 = h ! ofaces cube \<longrightarrow>
            map_option fst (generate_solution cube2 h2) =
            map_option fst (generate_solution cube h))"
proof -
  have a: "take (length h) h' = h \<and> h' ! ofaces cube = h ! ofaces cube"
    if "generate_solution cube h = Some (r, h')" for r h'
  proof -
    from generate_solution_heap [OF that] have t: "take (length h) h' = h" .
    have "take (length h) h' ! ofaces cube = h' ! ofaces cube"
      using assms by (rule nth_take)
    with t show ?thesis by simp
  qed
  have b: "map_option fst (generate_solution cube2 h2) = map_option fst (generate_solution cube h)"
    if "ofaces cube2 < length h2" "h2 ! ofaces cube2 = h ! ofaces cube"
    using generate_solution_result [OF assms] generate_solution_result [OF that(1)] that(2)
    by simp
  from a b show ?thesis
    by (auto split: option.splits)
qed


theorem generate_solution_frame_witness:
  "ofaces \<lparr>osize = 3, ofaces = 0\<rparr> < length [initial_faces 3] \<and>
   (case generate_solution \<lparr>osize = 3, ofaces = 0\<rparr> [initial_faces 3] of
      None \<Rightarrow> True
    | Some (r, h') \<Rightarrow> take 1 h' = [initial_faces 3] \<and> h' ! 0 = initial_faces 3) \<and>
   ofaces \<lparr>osize = 5, ofaces = 1\<rparr> < length [initial_faces 2, initial_faces 3] \<and>
   map_option fst (generate_solution \<lparr>osize = 5, ofaces = 1\<rparr> [initial_faces 2, initial_faces 3]) =
   map_option fst (generate_solution \<lparr>osize = 3, ofaces = 0\<rparr> [initial_faces 3])"
proof -
  have a: "ofaces \<lparr>osize = 3, ofaces = 0\<rparr> < length [initial_faces 3]"
    by simp
  have b: "ofaces \<lparr>osize = 5, ofaces = 1\<rparr> < length [initial_faces 2, initial_faces 3] \<and>
      [initial_faces 2, initial_faces 3] ! ofaces \<lparr>osize = 5, ofaces = 1\<rparr> =
      [initial_faces 3] ! ofaces \<lparr>osize = 3, ofaces = 0\<rparr>"
    by simp
  from generate_solution_frame [OF a, of "\<lparr>osize = 5, ofaces = 1\<rparr>"
      "[initial_faces 2, initial_faces 3]"] a b
  show ?thesis
    by (auto split: option.splits)
qed


end
